theory Spec2Isabelle
  imports Main "HOL-Library.AList" "HOL-Library.Monad_Syntax"
begin

section \<open>Pieces, squares and the board\<close>

text \<open>
  The program writes a piece as a two-character string: the colour (\<open>w\<close>, \<open>b\<close>)
  followed by the kind (\<open>p n b r q k\<close>); the empty string is an empty square. Here a
  piece is a pair of a colour and a kind, and a cell is an optional piece, \<open>None\<close> being
  the empty string. \<open>piece[0]\<close> is \<open>fst\<close>, \<open>piece[1]\<close> is \<open>snd\<close>, and both raise
  IndexError on the empty string.
\<close>

datatype color = White | Black

datatype kind = Pawn | Knight | Bishop | Rook | Queen | King

type_synonym piece = "color \<times> kind"

type_synonym cell = "piece option"

type_synonym square = "int \<times> int"

type_synonym board = "cell list list"

definition INITIAL_BOARD :: board where
  "INITIAL_BOARD =
    [map (\<lambda>k. Some (Black, k)) [Rook, Knight, Bishop, Queen, King, Bishop, Knight, Rook],
     replicate 8 (Some (Black, Pawn)),
     replicate 8 None,
     replicate 8 None,
     replicate 8 None,
     replicate 8 None,
     replicate 8 (Some (White, Pawn)),
     map (\<lambda>k. Some (White, k)) [Rook, Knight, Bishop, Queen, King, Bishop, Knight, Rook]]"

text \<open>\<open>'b' if color == 'w' else 'w'\<close>\<close>

definition other_color :: "color \<Rightarrow> color" where
  "other_color c = (if c = White then Black else White)"

text \<open>\<open>range(8)\<close>\<close>

definition range8 :: "int list" where
  "range8 = [0, 1, 2, 3, 4, 5, 6, 7]"

text \<open>The guard \<open>0 <= r < 8 and 0 <= c < 8\<close> of the move generators.\<close>

definition on_board :: "int \<Rightarrow> int \<Rightarrow> bool" where
  "on_board r c = (0 \<le> r \<and> r < 8 \<and> 0 \<le> c \<and> c < 8)"

text \<open>
  \<open>board[r][c]\<close> where the program has established \<open>on_board r c\<close> before the read
  (a loop over \<open>range(8)\<close>, a generator's guard, or the square of the piece that moves).
\<close>

definition cell_at :: "board \<Rightarrow> int \<Rightarrow> int \<Rightarrow> cell" where
  "cell_at b r c = b ! nat r ! nat c"

text \<open>\<open>board[r][c] = v\<close> for a square on the board.\<close>

definition put_cell :: "board \<Rightarrow> int \<Rightarrow> int \<Rightarrow> cell \<Rightarrow> board" where
  "put_cell b r c v = b[nat r := (b ! nat r)[nat c := v]]"

text \<open>
  Python indexing of a list by an arbitrary integer: a negative index counts from the
  end, anything else out of range raises IndexError (\<open>None\<close>).
\<close>

definition py_index :: "'a list \<Rightarrow> int \<Rightarrow> nat option" where
  "py_index xs i =
    (let n = int (length xs) in
     if 0 \<le> i \<and> i < n then Some (nat i)
     else if - n \<le> i \<and> i < 0 then Some (nat (i + n))
     else None)"

text \<open>\<open>board[r][c]\<close> and \<open>board[r][c] = v\<close> where nothing bounds \<open>r\<close> and \<open>c\<close>.\<close>

definition board_get :: "board \<Rightarrow> int \<Rightarrow> int \<Rightarrow> cell option" where
  "board_get b r c =
    (case py_index b r of
       None \<Rightarrow> None
     | Some i \<Rightarrow> (case py_index (b ! i) c of None \<Rightarrow> None | Some j \<Rightarrow> Some (b ! i ! j)))"

definition board_set :: "board \<Rightarrow> int \<Rightarrow> int \<Rightarrow> cell \<Rightarrow> board option" where
  "board_set b r c v =
    (case py_index b r of
       None \<Rightarrow> None
     | Some i \<Rightarrow>
        (case py_index (b ! i) c of
           None \<Rightarrow> None
         | Some j \<Rightarrow> Some (b[i := (b ! i)[j := v]])))"

definition wf_board :: "board \<Rightarrow> bool" where
  "wf_board b = (length b = 8 \<and> list_all (\<lambda>row. length row = 8) b)"

section \<open>Split qubits and quantum subsystems\<close>

text \<open>The branch labels \<open>'a'\<close> and \<open>'b'\<close>.\<close>

datatype branch_label = BrA | BrB

record split_branch =
  pos :: square
  piece_type :: piece

text \<open>
  Objects are referred to by where they are stored: a subsystem by its index in the
  manager's \<open>subsystems\<close> (a list that only grows), a qubit by its index in its
  subsystem's \<open>split_qubits\<close> (likewise). A parent qubit is always in the subsystem
  of its child, so \<open>parent\<close> and \<open>children\<close> hold indices into the same list.
\<close>

record split_qubit =
  branch_a :: split_branch
  branch_b :: split_branch
  parent :: "nat option"
  parent_branch :: "branch_label option"
  children :: "nat list"
  qubit_index :: nat
  collapsed_result :: "branch_label option"

text \<open>The gates \<open>add_split_qubit\<close> appends to the subsystem's circuit.\<close>

datatype gate = H nat | X nat | CH nat nat

record quantum_subsystem =
  split_qubits :: "split_qubit list"
  position_to_qubit :: "(square \<times> nat \<times> branch_label) list"
  qc_qubits :: nat
  qc_gates :: "gate list"
  result_map :: "(nat \<times> branch_label) list"
  measured :: bool

definition new_subsystem :: quantum_subsystem where
  "new_subsystem =
    \<lparr>split_qubits = [], position_to_qubit = [], qc_qubits = 0, qc_gates = [],
     result_map = [], measured = False\<rparr>"

text \<open>
  \<open>QuantumSubsystem.add_split_qubit\<close> (its \<open>piece_type\<close> parameter is not used by the
  source). Returns the subsystem and the index of the new qubit in \<open>split_qubits\<close>.

  The circuit of a subsystem starts as \<open>QuantumCircuit()\<close>, without registers, and
  \<open>self.qc.add_register(1)\<close> adds a one-qubit register under the name \<open>q\<close>. Qiskit raises
  \<open>CircuitError\<close> when the circuit has a register of that name already, so the call
  succeeds on a subsystem whose circuit is still empty and raises on every later one:
  no subsystem gets a second qubit. The exception is caught nowhere.
\<close>

definition add_split_qubit ::
  "quantum_subsystem \<Rightarrow> split_branch \<Rightarrow> split_branch \<Rightarrow> nat option \<Rightarrow> branch_label option
    \<Rightarrow> (quantum_subsystem \<times> nat) option" where
  "add_split_qubit sub ba bb parent_qubit parent_br =
    (if qc_qubits sub \<noteq> 0 then None else
     let me = length (split_qubits sub);
         idx = qc_qubits sub;
         new_qubit = \<lparr>branch_a = ba, branch_b = bb, parent = parent_qubit,
                      parent_branch = parent_br, children = [], qubit_index = idx,
                      collapsed_result = None\<rparr>;
         qs = (case parent_qubit of
                 None \<Rightarrow> split_qubits sub
               | Some p \<Rightarrow>
                   (split_qubits sub)
                     [p := (split_qubits sub ! p)
                        \<lparr>children := children (split_qubits sub ! p) @ [me]\<rparr>]);
         gates = (case parent_qubit of
                    None \<Rightarrow> [H idx]
                  | Some p \<Rightarrow>
                      (let ctrl = qubit_index (split_qubits sub ! p) in
                       if parent_br = Some BrA then [X ctrl, CH ctrl idx, X ctrl]
                       else [CH ctrl idx]))
     in Some (sub\<lparr>split_qubits := qs @ [new_qubit],
                   position_to_qubit :=
                     AList.update (pos bb) (me, BrB)
                       (AList.update (pos ba) (me, BrA) (position_to_qubit sub)),
                   qc_qubits := idx + 1,
                   qc_gates := qc_gates sub @ gates\<rparr>, me))"

text \<open>
  The measurement backend is outside the program: the bit string its \<open>n\<close>-th run returns
  is \<open>samples n\<close>, and \<open>runs\<close> counts the runs made so far.
\<close>

record backend =
  samples :: "nat \<Rightarrow> string"
  runs :: nat

text \<open>
  The loop of \<open>collapse\<close> over \<open>split_qubits\<close>: \<open>bits\<close> is \<open>measured_str[::-1]\<close>;
  reading past its end raises IndexError.
\<close>

fun read_outcomes :: "string \<Rightarrow> split_qubit list \<Rightarrow> split_qubit list option" where
  "read_outcomes bits [] = Some []"
| "read_outcomes bits (q # qs) =
    (if qubit_index q < length bits then
       (case read_outcomes bits qs of
          None \<Rightarrow> None
        | Some qs' \<Rightarrow>
            Some (q\<lparr>collapsed_result :=
                      Some (if bits ! qubit_index q = CHR ''0'' then BrA else BrB)\<rparr> # qs'))
     else None)"

text \<open>\<open>self.result_map[qubit] = qubit.collapsed_result\<close>, qubit by qubit.\<close>

definition record_results ::
  "split_qubit list \<Rightarrow> (nat \<times> branch_label) list \<Rightarrow> (nat \<times> branch_label) list" where
  "record_results qs rm =
    fold (\<lambda>(i, q). AList.update i (case collapsed_result q of Some l \<Rightarrow> l | None \<Rightarrow> BrB))
      (enumerate 0 qs) rm"

text \<open>
  \<open>QuantumSubsystem.collapse\<close>: returns the outcome map, the backend and the subsystem.
\<close>

definition collapse ::
  "backend \<Rightarrow> quantum_subsystem
    \<Rightarrow> ((nat \<times> branch_label) list \<times> backend \<times> quantum_subsystem) option" where
  "collapse be sub =
    (if measured sub then Some (result_map sub, be, sub)
     else
       (let measured_str = samples be (runs be);
            be' = be\<lparr>runs := runs be + 1\<rparr>
        in case read_outcomes (rev measured_str) (split_qubits sub) of
             None \<Rightarrow> None
           | Some qs \<Rightarrow>
               (let sub' = sub\<lparr>split_qubits := qs,
                               result_map := record_results qs (result_map sub),
                               measured := True\<rparr>
                in Some (result_map sub', be', sub'))))"

text \<open>The body of the loop of \<open>apply_to_board\<close>, for one qubit.\<close>

definition write_qubit :: "board \<Rightarrow> split_qubit \<Rightarrow> board option" where
  "write_qubit b q =
    (case board_set b (fst (pos (branch_a q))) (snd (pos (branch_a q))) None of
       None \<Rightarrow> None
     | Some b1 \<Rightarrow>
        (case board_set b1 (fst (pos (branch_b q))) (snd (pos (branch_b q))) None of
           None \<Rightarrow> None
         | Some b2 \<Rightarrow>
            (let real = (if collapsed_result q = Some BrA then branch_a q else branch_b q)
             in board_set b2 (fst (pos real)) (snd (pos real)) (Some (piece_type real)))))"

fun write_qubits :: "board \<Rightarrow> split_qubit list \<Rightarrow> board option" where
  "write_qubits b [] = Some b"
| "write_qubits b (q # qs) =
    (case write_qubit b q of None \<Rightarrow> None | Some b' \<Rightarrow> write_qubits b' qs)"

text \<open>
  \<open>QuantumSubsystem.apply_to_board\<close>; the target qubit, when given, is passed as the
  object it is.
\<close>

definition apply_to_board ::
  "backend \<Rightarrow> quantum_subsystem \<Rightarrow> board \<Rightarrow> split_qubit option
    \<Rightarrow> (backend \<times> quantum_subsystem \<times> board) option" where
  "apply_to_board be sub b target_qubit =
    (case (if \<not> measured sub then collapse be sub else Some (result_map sub, be, sub)) of
       None \<Rightarrow> None
     | Some (_, be', sub') \<Rightarrow>
        (case write_qubits b
                (case target_qubit of Some q \<Rightarrow> [q] | None \<Rightarrow> split_qubits sub') of
           None \<Rightarrow> None
         | Some b' \<Rightarrow> Some (be', sub', b')))"

section \<open>The split manager\<close>

record quantum_split_manager =
  subsystems :: "quantum_subsystem list"
  global_position_map :: "(square \<times> nat \<times> nat \<times> branch_label) list"

definition new_manager :: quantum_split_manager where
  "new_manager = \<lparr>subsystems = [], global_position_map = []\<rparr>"

text \<open>
  \<open>create_split_qubit\<close>: returns the manager and the new qubit (subsystem index, qubit
  index).
\<close>

definition create_split_qubit ::
  "quantum_split_manager \<Rightarrow> square \<Rightarrow> square \<Rightarrow> piece
    \<Rightarrow> (quantum_split_manager \<times> (nat \<times> nat)) option" where
  "create_split_qubit m from_pos to_pos piece =
    (let (subs, sid, parent_qubit, parent_br) =
           (case map_of (global_position_map m) from_pos of
              Some (sid, q, br) \<Rightarrow> (subsystems m, sid, Some q, Some br)
            | None \<Rightarrow> (subsystems m @ [new_subsystem], length (subsystems m), None, None))
     in case add_split_qubit (subs ! sid) \<lparr>pos = from_pos, piece_type = piece\<rparr>
               \<lparr>pos = to_pos, piece_type = piece\<rparr> parent_qubit parent_br of
          None \<Rightarrow> None
        | Some (sub', qi) \<Rightarrow>
            Some (m\<lparr>subsystems := subs[sid := sub'],
                    global_position_map :=
                      AList.update to_pos (sid, qi, BrB)
                        (AList.update from_pos (sid, qi, BrA) (global_position_map m))\<rparr>,
                  (sid, qi)))"

definition is_split_piece :: "quantum_split_manager \<Rightarrow> square \<Rightarrow> bool" where
  "is_split_piece m p = (map_of (global_position_map m) p \<noteq> None)"

definition get_qubit_for_position ::
  "quantum_split_manager \<Rightarrow> square \<Rightarrow> (nat \<times> nat \<times> branch_label) option" where
  "get_qubit_for_position m p = map_of (global_position_map m) p"

text \<open>The qubit object behind a reference.\<close>

definition qubit_of :: "quantum_split_manager \<Rightarrow> nat \<times> nat \<Rightarrow> split_qubit" where
  "qubit_of m ref = split_qubits (subsystems m ! fst ref) ! snd ref"

text \<open>
  \<open>collapse_qubit\<close>: the first subsystem whose \<open>split_qubits\<close> holds the object is the
  one the reference names.
\<close>

definition collapse_qubit ::
  "backend \<Rightarrow> quantum_split_manager \<Rightarrow> nat \<times> nat \<Rightarrow> (backend \<times> quantum_split_manager) option" where
  "collapse_qubit be m ref =
    (if fst ref < length (subsystems m) \<and> snd ref < length (split_qubits (subsystems m ! fst ref))
     then
       (case collapse be (subsystems m ! fst ref) of
          None \<Rightarrow> None
        | Some (_, be', sub') \<Rightarrow> Some (be', m\<lparr>subsystems := (subsystems m)[fst ref := sub']\<rparr>))
     else Some (be, m))"

text \<open>
  The first loop of \<open>apply_collapse_to_board\<close>, over the subsystems with their indices.
  A subsystem reached here is measured, so its \<open>apply_to_board\<close> goes straight to the
  writes.
\<close>

fun fold_measured ::
  "quantum_split_manager \<Rightarrow> (nat \<times> nat) option \<Rightarrow> (nat \<times> quantum_subsystem) list \<Rightarrow> board
    \<Rightarrow> square list \<Rightarrow> (board \<times> square list) option" where
  "fold_measured m target [] b positions_to_remove = Some (b, positions_to_remove)"
| "fold_measured m target ((sid, sub) # rest) b positions_to_remove =
    (if measured sub then
       (case write_qubits b
               (case target of Some t \<Rightarrow> [qubit_of m t] | None \<Rightarrow> split_qubits sub) of
          None \<Rightarrow> None
        | Some b' \<Rightarrow>
            fold_measured m target rest b'
              (positions_to_remove @
               map fst
                 (filter (\<lambda>(p, (sid', q, br)). sid' = sid \<and> (target = None \<or> Some (sid', q) = target))
                    (global_position_map m))))
     else fold_measured m target rest b positions_to_remove)"

text \<open>
  \<open>apply_collapse_to_board\<close>. Every key of the index is collected at most once (its
  entry names one subsystem), so \<open>del\<close> never meets a missing key.
\<close>

definition apply_collapse_to_board ::
  "quantum_split_manager \<Rightarrow> board \<Rightarrow> (nat \<times> nat) option \<Rightarrow> (board \<times> quantum_split_manager) option" where
  "apply_collapse_to_board m b target =
    (case fold_measured m target (enumerate 0 (subsystems m)) b [] of
       None \<Rightarrow> None
     | Some (b', positions_to_remove) \<Rightarrow>
         Some (b', m\<lparr>global_position_map :=
                      fold AList.delete positions_to_remove (global_position_map m)\<rparr>))"

text \<open>
  \<open>get_split_positions\<close>: the inner loop over the qubits of one subsystem, with the set
  \<open>processed_qubits\<close>, then the loop over the subsystems.
\<close>

fun group_qubits ::
  "nat \<Rightarrow> (nat \<times> split_qubit) list \<Rightarrow> (nat \<times> nat) list
    \<Rightarrow> (square \<times> piece) list \<times> (nat \<times> nat) list" where
  "group_qubits sid [] processed = ([], processed)"
| "group_qubits sid ((i, q) # qs) processed =
    (if (sid, i) \<notin> set processed then
       (let (g, processed') = group_qubits sid qs ((sid, i) # processed)
        in ((pos (branch_a q), piece_type (branch_a q)) #
            (pos (branch_b q), piece_type (branch_b q)) # g, processed'))
     else group_qubits sid qs processed)"

fun split_groups_from ::
  "(nat \<times> quantum_subsystem) list \<Rightarrow> (nat \<times> nat) list \<Rightarrow> (square \<times> piece) list list" where
  "split_groups_from [] processed = []"
| "split_groups_from ((sid, sub) # rest) processed =
    (if \<not> measured sub then
       (let (g, processed') = group_qubits sid (enumerate 0 (split_qubits sub)) processed
        in (if g \<noteq> [] then [g] else []) @ split_groups_from rest processed')
     else split_groups_from rest processed)"

definition get_split_positions :: "quantum_split_manager \<Rightarrow> (square \<times> piece) list list" where
  "get_split_positions m = split_groups_from (enumerate 0 (subsystems m)) []"

section \<open>The game state\<close>

record castling_flags =
  king :: bool
  queen :: bool
  king_nm :: bool
  queen_nm :: bool

text \<open>
  The fields of \<open>ChessGame\<close> that the rules read or write (the window, the font, the
  selection and the button lists belong to the display), and the backend.
\<close>

record game =
  board :: board
  turn :: color
  captured :: "color \<Rightarrow> cell list"
  en_passant :: "square option"
  castling :: "color \<Rightarrow> castling_flags"
  history :: "(int \<times> int \<times> int \<times> int \<times> piece \<times> cell) list"
  promotion_pending :: bool
  promotion_pos :: "square option"
  check_cache :: "color \<Rightarrow> bool option"
  game_over :: bool
  edit_mode :: bool
  draw_by_stalemate :: bool
  split_mode :: bool
  split_manager :: quantum_split_manager
  backend :: backend

definition new_game :: "backend \<Rightarrow> game" where
  "new_game be =
    \<lparr>board = INITIAL_BOARD, turn = White, captured = (\<lambda>_. []), en_passant = None,
     castling = (\<lambda>_. \<lparr>king = False, queen = False, king_nm = True, queen_nm = True\<rparr>),
     history = [], promotion_pending = False, promotion_pos = None,
     check_cache = (\<lambda>_. None), game_over = False, edit_mode = False,
     draw_by_stalemate = False, split_mode = False, split_manager = new_manager,
     backend = be\<rparr>"

section \<open>Move generation\<close>

definition get_pawn_moves :: "game \<Rightarrow> int \<Rightarrow> int \<Rightarrow> square list" where
  "get_pawn_moves s row col =
    (let direction = (if turn s = White then - 1 else 1);
         start_row = (if turn s = White then 6 else 1);
         pushes =
           (if 0 \<le> row + direction \<and> row + direction < 8 then
              (if cell_at (board s) (row + direction) col = None then
                 (row + direction, col) #
                 (if row = start_row \<and> 0 \<le> row + 2 * direction \<and> row + 2 * direction < 8 then
                    (if cell_at (board s) (row + 2 * direction) col = None
                     then [(row + 2 * direction, col)] else [])
                  else [])
               else [])
            else []);
         captures =
           concat (map (\<lambda>dc.
             (let nc = col + dc in
              if 0 \<le> row + direction \<and> row + direction < 8 \<and> 0 \<le> nc \<and> nc < 8 then
                (case cell_at (board s) (row + direction) nc of
                   None \<Rightarrow> []
                 | Some p \<Rightarrow> if fst p \<noteq> turn s then [(row + direction, nc)] else []) @
                (if Some (row + direction, nc) = en_passant s then [(row + direction, nc)] else [])
              else [])) [- 1, 1])
     in pushes @ captures)"

text \<open>\<open>not target_piece or target_piece[0] != self.turn\<close>\<close>

definition free_or_enemy :: "game \<Rightarrow> int \<Rightarrow> int \<Rightarrow> bool" where
  "free_or_enemy s r c =
    (case cell_at (board s) r c of None \<Rightarrow> True | Some p \<Rightarrow> fst p \<noteq> turn s)"

definition get_knight_moves :: "game \<Rightarrow> int \<Rightarrow> int \<Rightarrow> square list" where
  "get_knight_moves s row col =
    filter (\<lambda>(r, c). on_board r c \<and> free_or_enemy s r c)
      (map (\<lambda>(dr, dc). (row + dr, col + dc))
         [(- 2, - 1), (- 2, 1), (- 1, - 2), (- 1, 2), (1, - 2), (1, 2), (2, - 1), (2, 1)])"

text \<open>
  The \<open>while True\<close> loop of the bishop and the rook along one direction, from the square
  \<open>(r, c)\<close> reached so far. The source only runs it with the eight fixed directions; the
  direction \<open>(0, 0)\<close>, which it never passes, is cut off here so that the function is
  total.
\<close>

function slide :: "game \<Rightarrow> int \<Rightarrow> int \<Rightarrow> int \<Rightarrow> int \<Rightarrow> square list" where
  "slide s dr dc r c =
    (if dr = 0 \<and> dc = 0 then []
     else if on_board (r + dr) (c + dc) then
       (case cell_at (board s) (r + dr) (c + dc) of
          None \<Rightarrow> (r + dr, c + dc) # slide s dr dc (r + dr) (c + dc)
        | Some p \<Rightarrow> if fst p \<noteq> turn s then [(r + dr, c + dc)] else [])
     else [])"
  by pat_completeness auto
termination
  by (relation "measure (\<lambda>(s, dr, dc, r, c).
        if dr > 0 then nat (8 - r) else if dr < 0 then nat (r + 1)
        else if dc > 0 then nat (8 - c) else nat (c + 1))")
     (auto simp: on_board_def)

declare slide.simps [simp del]

definition get_bishop_moves :: "game \<Rightarrow> int \<Rightarrow> int \<Rightarrow> square list" where
  "get_bishop_moves s row col =
    concat (map (\<lambda>(dr, dc). slide s dr dc row col) [(- 1, - 1), (- 1, 1), (1, - 1), (1, 1)])"

definition get_rook_moves :: "game \<Rightarrow> int \<Rightarrow> int \<Rightarrow> square list" where
  "get_rook_moves s row col =
    concat (map (\<lambda>(dr, dc). slide s dr dc row col) [(- 1, 0), (1, 0), (0, - 1), (0, 1)])"

definition get_queen_moves :: "game \<Rightarrow> int \<Rightarrow> int \<Rightarrow> square list" where
  "get_queen_moves s row col = get_rook_moves s row col @ get_bishop_moves s row col"

text \<open>The first loop of \<open>get_king_moves\<close>: all that \<open>simple=True\<close> returns.\<close>

definition get_king_moves_simple :: "game \<Rightarrow> int \<Rightarrow> int \<Rightarrow> square list" where
  "get_king_moves_simple s row col =
    filter (\<lambda>(r, c). on_board r c \<and> free_or_enemy s r c)
      (map (\<lambda>(dr, dc). (row + dr, col + dc))
         (filter (\<lambda>(dr, dc). \<not> (dr = 0 \<and> dc = 0))
            (concat (map (\<lambda>dr. map (\<lambda>dc. (dr, dc)) [- 1, 0, 1]) [- 1, 0, 1]))))"

text \<open>The dispatch of \<open>get_valid_moves\<close> on the kind of the piece, in simple mode.\<close>

definition candidate_moves :: "game \<Rightarrow> kind \<Rightarrow> int \<Rightarrow> int \<Rightarrow> square list" where
  "candidate_moves s k row col =
    (case k of
       Pawn \<Rightarrow> get_pawn_moves s row col
     | Knight \<Rightarrow> get_knight_moves s row col
     | Bishop \<Rightarrow> get_bishop_moves s row col
     | Rook \<Rightarrow> get_rook_moves s row col
     | Queen \<Rightarrow> get_queen_moves s row col
     | King \<Rightarrow> get_king_moves_simple s row col)"

text \<open>\<open>get_valid_moves(col, row, simple=True)\<close>: no effect on the state.\<close>

definition get_valid_moves_simple :: "game \<Rightarrow> int \<Rightarrow> int \<Rightarrow> square list" where
  "get_valid_moves_simple s col row =
    (if game_over s \<or> edit_mode s then []
     else (case cell_at (board s) row col of
             None \<Rightarrow> []
           | Some p \<Rightarrow> candidate_moves s (snd p) row col))"

section \<open>Attack detection and check\<close>

text \<open>
  The hypothetical board of \<open>is_square_attacked\<close>: a copy of the board with the piece
  written at \<open>pos\<close> and every other position of the group emptied.
\<close>

definition temp_board :: "board \<Rightarrow> square \<Rightarrow> piece \<Rightarrow> (square \<times> piece) list \<Rightarrow> board" where
  "temp_board b p piece grp =
    fold (\<lambda>(other_pos, _) tb.
            if other_pos \<noteq> p then put_cell tb (fst other_pos) (snd other_pos) None else tb)
      grp (put_cell b (fst p) (snd p) (Some piece))"

text \<open>
  \<open>is_square_attacked\<close>. It sets \<open>turn\<close> (and \<open>board\<close>) for each probe and restores them
  before it looks at the result, so it leaves the state as it found it.
\<close>

definition is_square_attacked :: "game \<Rightarrow> int \<Rightarrow> int \<Rightarrow> color \<Rightarrow> bool \<Rightarrow> bool" where
  "is_square_attacked s row col color simple =
    (let opponent = other_color color in
     if simple then
       list_ex (\<lambda>r. list_ex (\<lambda>c.
         (case cell_at (board s) r c of
            None \<Rightarrow> False
          | Some p \<Rightarrow>
              fst p = opponent \<and>
              (row, col) \<in> set (get_valid_moves_simple (s\<lparr>turn := opponent\<rparr>) c r))) range8) range8
     else
       list_ex (\<lambda>r. list_ex (\<lambda>c.
         (case cell_at (board s) r c of
            None \<Rightarrow> False
          | Some p \<Rightarrow>
              fst p = opponent \<and> \<not> is_split_piece (split_manager s) (r, c) \<and>
              (row, col) \<in> set (get_valid_moves_simple (s\<lparr>turn := opponent\<rparr>) c r))) range8) range8
       \<or>
       list_ex (\<lambda>grp. list_ex (\<lambda>(p, piece).
           fst piece = opponent \<and>
           (row, col) \<in> set (get_valid_moves_simple
                              (s\<lparr>board := temp_board (board s) p piece grp, turn := opponent\<rparr>)
                              (snd p) (fst p))) grp)
         (get_split_positions (split_manager s)))"

text \<open>
  The search for the king in \<open>is_in_check\<close>: \<open>break\<close> leaves the inner loop only, so the
  king found in the last row that holds one is the one kept.
\<close>

definition find_king :: "board \<Rightarrow> color \<Rightarrow> square option" where
  "find_king b color =
    fold (\<lambda>r king_pos.
            (case find (\<lambda>c. cell_at b r c = Some (color, King)) range8 of
               Some c \<Rightarrow> Some (r, c)
             | None \<Rightarrow> king_pos))
      range8 None"

text \<open>The loop of \<open>is_in_check\<close> that collapses every unmeasured subsystem.\<close>

fun collapse_unmeasured ::
  "backend \<Rightarrow> quantum_subsystem list \<Rightarrow> (backend \<times> quantum_subsystem list) option" where
  "collapse_unmeasured be [] = Some (be, [])"
| "collapse_unmeasured be (sub # subs) =
    (if \<not> measured sub then
       (case collapse be sub of
          None \<Rightarrow> None
        | Some (_, be', sub') \<Rightarrow>
            (case collapse_unmeasured be' subs of
               None \<Rightarrow> None
             | Some (be'', subs') \<Rightarrow> Some (be'', sub' # subs')))
     else
       (case collapse_unmeasured be subs of
          None \<Rightarrow> None
        | Some (be'', subs') \<Rightarrow> Some (be'', sub # subs')))"

text \<open>\<open>invalidate_check_cache\<close>\<close>

definition invalidate_check_cache :: "game \<Rightarrow> game" where
  "invalidate_check_cache s = s\<lparr>check_cache := (\<lambda>_. None)\<rparr>"

text \<open>\<open>is_in_check\<close>: the answer and the state it leaves.\<close>

definition is_in_check :: "game \<Rightarrow> color \<Rightarrow> bool \<Rightarrow> (bool \<times> game) option" where
  "is_in_check s color simple =
    (if \<not> simple \<and> check_cache s color \<noteq> None then
       Some (case check_cache s color of Some v \<Rightarrow> v | None \<Rightarrow> False, s)
     else
       (case find_king (board s) color of
          None \<Rightarrow> Some (False, s)
        | Some king_pos \<Rightarrow>
            (let in_check = is_square_attacked s (fst king_pos) (snd king_pos) color simple in
             if \<not> simple \<and> in_check then
               (case collapse_unmeasured (backend s) (subsystems (split_manager s)) of
                  None \<Rightarrow> None
                | Some (be, subs) \<Rightarrow>
                    (case apply_collapse_to_board ((split_manager s)\<lparr>subsystems := subs\<rparr>)
                            (board s) None of
                       None \<Rightarrow> None
                     | Some (b, m) \<Rightarrow>
                         (let s1 = invalidate_check_cache
                                     (s\<lparr>backend := be, board := b, split_manager := m\<rparr>)
                          in Some (in_check,
                                   s1\<lparr>check_cache := (check_cache s1)(color := Some in_check)\<rparr>))))
             else if \<not> simple then
               Some (in_check, s\<lparr>check_cache := (check_cache s)(color := Some in_check)\<rparr>)
             else Some (in_check, s))))"

section \<open>Castling and the moves of the side to move\<close>

text \<open>
  \<open>not board[row][c1] and not board[row][c2] ...\<close>, read from left to right: a column
  is only read when the ones before it were empty.
\<close>

fun all_empty :: "board \<Rightarrow> int \<Rightarrow> int list \<Rightarrow> bool option" where
  "all_empty b row [] = Some True"
| "all_empty b row (c # cs) =
    (case board_get b row c of
       None \<Rightarrow> None
     | Some (Some p) \<Rightarrow> Some False
     | Some None \<Rightarrow> all_empty b row cs)"

definition set_side :: "game \<Rightarrow> (castling_flags \<Rightarrow> castling_flags) \<Rightarrow> game" where
  "set_side s f = s\<lparr>castling := (castling s)(turn s := f (castling s (turn s)))\<rparr>"

text \<open>
  The block of \<open>can_castle\<close> under \<open>if self.castling[self.turn]['king_nm']\<close>: whether it
  set \<open>c = 1\<close>, and the state it leaves.
\<close>

definition try_king_side :: "game \<Rightarrow> int \<Rightarrow> int \<Rightarrow> (bool \<times> game) option" where
  "try_king_side s row col =
    (if king_nm (castling s (turn s)) then
       (case all_empty (board s) row [col + 1, col + 2] of
          None \<Rightarrow> None
        | Some free \<Rightarrow>
            if free \<and>
               \<not> is_square_attacked s row (col + 1) (turn s) True \<and>
               \<not> is_square_attacked s row (col + 2) (turn s) True
            then Some (True, set_side s (\<lambda>f. f\<lparr>king := True\<rparr>))
            else Some (False, s))
     else Some (False, s))"

text \<open>The block under \<open>if self.castling[self.turn]['queen_nm']\<close>.\<close>

definition try_queen_side :: "game \<Rightarrow> int \<Rightarrow> int \<Rightarrow> (bool \<times> game) option" where
  "try_queen_side s row col =
    (if queen_nm (castling s (turn s)) then
       (case all_empty (board s) row [col - 1, col - 2, col - 3] of
          None \<Rightarrow> None
        | Some free \<Rightarrow>
            if free \<and>
               \<not> is_square_attacked s row (col - 1) (turn s) True \<and>
               \<not> is_square_attacked s row (col - 2) (turn s) True
            then Some (True, set_side s (\<lambda>f. f\<lparr>queen := True\<rparr>))
            else Some (False, s))
     else Some (False, s))"

text \<open>\<open>can_castle\<close>: the answer and the state it leaves.\<close>

definition can_castle :: "game \<Rightarrow> int \<Rightarrow> int \<Rightarrow> (bool \<times> game) option" where
  "can_castle s row col =
    (case board_get (board s) row col of
       None \<Rightarrow> None
     | Some None \<Rightarrow> None
     | Some (Some p) \<Rightarrow>
        if snd p \<noteq> King \<or> \<not> king_nm (castling s (turn s)) \<and> \<not> queen_nm (castling s (turn s))
        then Some (False, s)
        else do {
          (in_check, s0) \<leftarrow> is_in_check s (turn s) True;
          if in_check then Some (False, s0)
          else do {
            (king_ok, s1) \<leftarrow> try_king_side s0 row col;
            (queen_ok, s2) \<leftarrow> try_queen_side s1 row col;
            if king_ok \<or> queen_ok then Some (True, s2)
            else Some (False,
                   set_side (set_side s2 (\<lambda>f. f\<lparr>queen := False\<rparr>)) (\<lambda>f. f\<lparr>king := False\<rparr>))
          }
        })"

text \<open>\<open>get_king_moves(row, col, simple=False)\<close>\<close>

definition get_king_moves :: "game \<Rightarrow> int \<Rightarrow> int \<Rightarrow> (square list \<times> game) option" where
  "get_king_moves s row col =
    (let moves = get_king_moves_simple s row col in
     if king_nm (castling s (turn s)) \<or> queen_nm (castling s (turn s)) then
       (case can_castle s row col of
          None \<Rightarrow> None
        | Some (False, s1) \<Rightarrow> Some (moves, s1)
        | Some (True, s1) \<Rightarrow>
            Some (moves @
                  (if king (castling s1 (turn s1)) then [(row, col + 2)] else []) @
                  (if queen (castling s1 (turn s1)) then [(row, col - 2)] else []), s1))
     else Some (moves, s))"

text \<open>
  \<open>is_legal_move\<close>: the answer and the state it leaves. The move is written on the board
  and taken back again around each probe.
\<close>

definition is_legal_move :: "game \<Rightarrow> int \<Rightarrow> int \<Rightarrow> int \<Rightarrow> int \<Rightarrow> (bool \<times> game) option" where
  "is_legal_move s from_row from_col to_row to_col =
    (if game_over s \<or> edit_mode s then Some (False, s)
     else do {
       piece \<leftarrow> board_get (board s) from_row from_col;
       captured_piece \<leftarrow> board_get (board s) to_row to_col;
       b1 \<leftarrow> board_set (board s) to_row to_col piece;
       b2 \<leftarrow> board_set b1 from_row from_col None;
       (in_check_after_move, s2) \<leftarrow> is_in_check (s\<lparr>board := b2\<rparr>) (turn s) True;
       b3 \<leftarrow> board_set (board s2) from_row from_col piece;
       b4 \<leftarrow> board_set b3 to_row to_col captured_piece;
       (in_check_before, s4) \<leftarrow> is_in_check (s2\<lparr>board := b4\<rparr>) (turn s2) True;
       if in_check_before then do {
         b5 \<leftarrow> board_set (board s4) to_row to_col piece;
         b6 \<leftarrow> board_set b5 from_row from_col None;
         (still_in_check, s6) \<leftarrow> is_in_check (s4\<lparr>board := b6\<rparr>) (turn s4) True;
         b7 \<leftarrow> board_set (board s6) from_row from_col piece;
         b8 \<leftarrow> board_set b7 to_row to_col captured_piece;
         Some (\<not> still_in_check, s6\<lparr>board := b8\<rparr>)
       }
       else Some (\<not> in_check_after_move, s4)
     })"

text \<open>The list comprehension of \<open>get_valid_moves\<close> that keeps the legal moves.\<close>

fun keep_legal :: "game \<Rightarrow> int \<Rightarrow> int \<Rightarrow> square list \<Rightarrow> (square list \<times> game) option" where
  "keep_legal s row col [] = Some ([], s)"
| "keep_legal s row col (m # ms) =
    (case is_legal_move s row col (fst m) (snd m) of
       None \<Rightarrow> None
     | Some (ok, s1) \<Rightarrow>
        (case keep_legal s1 row col ms of
           None \<Rightarrow> None
         | Some (rest, s2) \<Rightarrow> Some (if ok then m # rest else rest, s2)))"

text \<open>\<open>get_valid_moves(col, row, simple=False)\<close>\<close>

definition get_valid_moves :: "game \<Rightarrow> int \<Rightarrow> int \<Rightarrow> (square list \<times> game) option" where
  "get_valid_moves s col row =
    (if game_over s \<or> edit_mode s then Some ([], s)
     else
       (case cell_at (board s) row col of
          None \<Rightarrow> Some ([], s)
        | Some p \<Rightarrow>
           if fst p \<noteq> turn s then Some ([], s)
           else
             (case (if snd p = King then get_king_moves s row col
                    else Some (candidate_moves s (snd p) row col, s)) of
                None \<Rightarrow> None
              | Some (moves, s1) \<Rightarrow> keep_legal s1 row col moves)))"

section \<open>Checkmate and stalemate\<close>

definition all_squares :: "square list" where
  "all_squares = concat (map (\<lambda>r. map (\<lambda>c. (r, c)) range8) range8)"

text \<open>\<open>for to_row, to_col in moves: if self.is_legal_move(...): return False\<close>\<close>

fun first_legal :: "game \<Rightarrow> int \<Rightarrow> int \<Rightarrow> square list \<Rightarrow> (bool \<times> game) option" where
  "first_legal s row col [] = Some (False, s)"
| "first_legal s row col (m # ms) =
    (case is_legal_move s row col (fst m) (snd m) of
       None \<Rightarrow> None
     | Some (True, s1) \<Rightarrow> Some (True, s1)
     | Some (False, s1) \<Rightarrow> first_legal s1 row col ms)"

text \<open>
  The two nested loops over the board that \<open>is_checkmate\<close> and \<open>is_stalemate\<close> share:
  the answer is \<open>True\<close> when the loops leave through \<open>return False\<close>, that is when some
  piece of the colour has a legal move.
\<close>

fun some_legal_move :: "game \<Rightarrow> color \<Rightarrow> square list \<Rightarrow> (bool \<times> game) option" where
  "some_legal_move s color [] = Some (False, s)"
| "some_legal_move s color (sq # sqs) =
    (case cell_at (board s) (fst sq) (snd sq) of
       None \<Rightarrow> some_legal_move s color sqs
     | Some p \<Rightarrow>
        if fst p = color then
          (case get_valid_moves s (snd sq) (fst sq) of
             None \<Rightarrow> None
           | Some (moves, s1) \<Rightarrow>
              (case first_legal s1 (fst sq) (snd sq) moves of
                 None \<Rightarrow> None
               | Some (True, s2) \<Rightarrow> Some (True, s2)
               | Some (False, s2) \<Rightarrow> some_legal_move s2 color sqs))
        else some_legal_move s color sqs)"

definition is_checkmate :: "game \<Rightarrow> color \<Rightarrow> (bool \<times> game) option" where
  "is_checkmate s color =
    (case is_in_check s color False of
       None \<Rightarrow> None
     | Some (False, s1) \<Rightarrow> Some (False, s1)
     | Some (True, s1) \<Rightarrow>
        (case some_legal_move s1 color all_squares of
           None \<Rightarrow> None
         | Some (found, s2) \<Rightarrow> Some (\<not> found, s2)))"

definition is_stalemate :: "game \<Rightarrow> color \<Rightarrow> (bool \<times> game) option" where
  "is_stalemate s color =
    (case is_in_check s color False of
       None \<Rightarrow> None
     | Some (True, s1) \<Rightarrow> Some (False, s1)
     | Some (False, s1) \<Rightarrow>
        (case some_legal_move s1 color all_squares of
           None \<Rightarrow> None
         | Some (found, s2) \<Rightarrow> Some (\<not> found, s2)))"

text \<open>
  The end of a half-move in \<open>make_move\<close>: the cache is invalidated, the turn passes and
  the new side to move is tested for checkmate and stalemate.
\<close>

definition evaluate_terminal :: "game \<Rightarrow> game option" where
  "evaluate_terminal s =
    (case is_checkmate s (turn s) of
       None \<Rightarrow> None
     | Some (True, s1) \<Rightarrow> Some (s1\<lparr>game_over := True, draw_by_stalemate := False\<rparr>)
     | Some (False, s1) \<Rightarrow>
        (case is_stalemate s1 (turn s1) of
           None \<Rightarrow> None
         | Some (True, s2) \<Rightarrow> Some (s2\<lparr>game_over := True, draw_by_stalemate := True\<rparr>)
         | Some (False, s2) \<Rightarrow> Some s2))"

section \<open>Move execution\<close>

text \<open>
  \<open>make_move\<close> leaves through \<open>return\<close> at several places; a stage of it either has
  returned with the final state or goes on with what the later stages need.
\<close>

datatype 'a flow = Returned game | Goes_on 'a

text \<open>
  \<open>invalidate_check_cache()\<close>, the turn passes, checkmate and stalemate are tested: the
  tail of the two early exits of \<open>make_move\<close> that cost the mover the turn.
\<close>

definition pass_turn :: "game \<Rightarrow> game option" where
  "pass_turn s = evaluate_terminal ((invalidate_check_cache s)\<lparr>turn := other_color (turn s)\<rparr>)"

text \<open>\<open>self.captured[self.turn].append(c)\<close>\<close>

definition add_capture :: "game \<Rightarrow> cell \<Rightarrow> game" where
  "add_capture s c = s\<lparr>captured := (captured s)(turn s := captured s (turn s) @ [c])\<rparr>"

text \<open>\<open>qubit.branch_a if qubit.collapsed_result == 'a' else qubit.branch_b\<close>\<close>

definition real_branch_of :: "split_qubit \<Rightarrow> split_branch" where
  "real_branch_of q = (if collapsed_result q = Some BrA then branch_a q else branch_b q)"

text \<open>
  The block \<open>make_move\<close> runs on a split destination (three times in the source): look
  the square up in the index and, when it is there, collapse the qubit's subsystem and
  fold that qubit into the board. The second component is \<open>None\<close> when the index has no
  entry, else whether the real branch is the square.
\<close>

definition collapse_at :: "game \<Rightarrow> square \<Rightarrow> (game \<times> bool option) option" where
  "collapse_at s p =
    (case get_qubit_for_position (split_manager s) p of
       None \<Rightarrow> Some (s, None)
     | Some (sid, qi, branch) \<Rightarrow> do {
         (be, m1) \<leftarrow> collapse_qubit (backend s) (split_manager s) (sid, qi);
         (b1, m2) \<leftarrow> apply_collapse_to_board m1 (board s) (Some (sid, qi));
         Some (s\<lparr>backend := be, split_manager := m2, board := b1\<rparr>,
               Some (pos (real_branch_of (qubit_of m1 (sid, qi))) = p))
       })"

text \<open>"Handle moving a split piece": the stage of \<open>make_move\<close> for a split origin.\<close>

definition move_split_origin :: "game \<Rightarrow> int \<Rightarrow> int \<Rightarrow> piece \<Rightarrow> (game \<times> piece) flow option" where
  "move_split_origin s from_row from_col piece =
    (if is_split_piece (split_manager s) (from_row, from_col) then
       (case get_qubit_for_position (split_manager s) (from_row, from_col) of
          None \<Rightarrow> Some (Goes_on (s, piece))
        | Some (sid, qi, branch) \<Rightarrow> do {
            (_, be, sub') \<leftarrow> collapse (backend s) (subsystems (split_manager s) ! sid);
            let m1 = (split_manager s)\<lparr>subsystems := (subsystems (split_manager s))[sid := sub']\<rparr>;
            let real_branch = real_branch_of (qubit_of m1 (sid, qi));
            (b1, m2) \<leftarrow> apply_collapse_to_board m1 (board s) (Some (sid, qi));
            b2 \<leftarrow> board_set b1 from_row from_col None;
            let s1 = s\<lparr>backend := be, split_manager := m2, board := b2\<rparr>;
            if pos real_branch \<noteq> (from_row, from_col) then map_option Returned (pass_turn s1)
            else Some (Goes_on (s1, piece_type real_branch))
          })
     else Some (Goes_on (s, piece)))"

text \<open>
  "Handle target position". \<open>target_piece\<close> and \<open>is_split_to\<close> are the values read at
  the start of \<open>make_move\<close>.
\<close>

definition move_onto_target :: "game \<Rightarrow> int \<Rightarrow> int \<Rightarrow> cell \<Rightarrow> bool \<Rightarrow> game flow option" where
  "move_onto_target s to_row to_col target_piece is_split_to =
    (case target_piece of
       None \<Rightarrow> Some (Goes_on s)
     | Some tp \<Rightarrow>
        if fst tp = turn s then
          (if is_split_to then do {
             (s1, real_here) \<leftarrow> collapse_at s (to_row, to_col);
             if real_here = Some True then map_option Returned (pass_turn s1)
             else Some (Goes_on s1)
           }
           else Some (Returned s))
        else
          (if is_split_to then do {
             (s1, real_here) \<leftarrow> collapse_at s (to_row, to_col);
             Some (Goes_on (if real_here = Some True then add_capture s1 target_piece else s1))
           }
           else Some (Goes_on (add_capture s target_piece))))"

text \<open>"Handle en passant capture"\<close>

definition capture_en_passant :: "game \<Rightarrow> int \<Rightarrow> int \<Rightarrow> game option" where
  "capture_en_passant s to_row to_col = do {
     let capture_row = to_row + (if turn s = White then 1 else - 1);
     captured_piece \<leftarrow> board_get (board s) capture_row to_col;
     s1 \<leftarrow> (if is_split_piece (split_manager s) (capture_row, to_col) then do {
              (s', real_here) \<leftarrow> collapse_at s (capture_row, to_col);
              Some (if real_here = Some True then add_capture s' captured_piece else s')
            }
            else Some (add_capture s captured_piece));
     b \<leftarrow> board_set (board s1) capture_row to_col None;
     Some (s1\<lparr>board := b\<rparr>)
   }"

text \<open>"Perform the move"\<close>

definition perform_move :: "game \<Rightarrow> int \<Rightarrow> int \<Rightarrow> int \<Rightarrow> int \<Rightarrow> piece \<Rightarrow> game option" where
  "perform_move s from_row from_col to_row to_col piece =
    (if \<not> split_mode s then do {
       b1 \<leftarrow> board_set (board s) from_row from_col None;
       b2 \<leftarrow> board_set b1 to_row to_col (Some piece);
       Some (s\<lparr>board := b2\<rparr>)
     }
     else do {
       b1 \<leftarrow> board_set (board s) from_row from_col (Some piece);
       b2 \<leftarrow> board_set b1 to_row to_col (Some piece);
       (m, _) \<leftarrow> create_split_qubit (split_manager s) (from_row, from_col) (to_row, to_col) piece;
       Some (s\<lparr>board := b2, split_manager := m\<rparr>)
     })"

text \<open>"Handle castling"\<close>

definition move_castling_rook :: "game \<Rightarrow> int \<Rightarrow> int \<Rightarrow> int \<Rightarrow> piece \<Rightarrow> game option" where
  "move_castling_rook s from_row from_col to_col piece =
    (if snd piece = King \<and> \<bar>to_col - from_col\<bar> = 2 then
       (if to_col > from_col then do {
          b1 \<leftarrow> board_set (board s) from_row 7 None;
          b2 \<leftarrow> board_set b1 from_row 5 (Some (turn s, Rook));
          Some (s\<lparr>board := b2\<rparr>)
        }
        else do {
          b1 \<leftarrow> board_set (board s) from_row 0 None;
          b2 \<leftarrow> board_set b1 from_row 3 (Some (turn s, Rook));
          Some (s\<lparr>board := b2\<rparr>)
        })
     else Some s)"

text \<open>"Update game state", up to the call of \<open>invalidate_check_cache\<close>.\<close>

definition update_game_state ::
  "game \<Rightarrow> int \<Rightarrow> int \<Rightarrow> int \<Rightarrow> int \<Rightarrow> piece \<Rightarrow> cell \<Rightarrow> game" where
  "update_game_state s from_row from_col to_row to_col piece target_piece =
    (let s1 = s\<lparr>en_passant :=
                  (if snd piece = Pawn \<and> \<bar>to_row - from_row\<bar> = 2
                   then Some (from_row + (to_row - from_row) div 2, from_col) else None)\<rparr>;
         s2 = (if snd piece = King
               then set_side s1 (\<lambda>f. f\<lparr>king_nm := False, queen_nm := False\<rparr>) else s1);
         s3 = (if snd piece = Rook then
                 (if from_col = 0 then set_side s2 (\<lambda>f. f\<lparr>queen_nm := False\<rparr>)
                  else if from_col = 7 then set_side s2 (\<lambda>f. f\<lparr>king_nm := False\<rparr>)
                  else s2)
               else s2)
     in s3\<lparr>turn := other_color (turn s3), split_mode := False,
           history := history s3 @ [(from_row, from_col, to_row, to_col, piece, target_piece)]\<rparr>)"

text \<open>
  The rest of \<open>make_move\<close> after "Handle target position": the en-passant capture, the
  move itself, the castling rook, the promotion exit, the update of the game state and the
  test for the end of the game. \<open>piece\<close>, \<open>target_piece\<close> and \<open>is_en_passant\<close> are the
  local variables of \<open>make_move\<close>.
\<close>

definition complete_move ::
  "game \<Rightarrow> int \<Rightarrow> int \<Rightarrow> int \<Rightarrow> int \<Rightarrow> piece \<Rightarrow> cell \<Rightarrow> bool \<Rightarrow> game option" where
  "complete_move s from_row from_col to_row to_col piece target_piece is_en_passant = do {
     s3 \<leftarrow> (if is_en_passant then capture_en_passant s to_row to_col else Some s);
     s4 \<leftarrow> perform_move s3 from_row from_col to_row to_col piece;
     s5 \<leftarrow> move_castling_rook s4 from_row from_col to_col piece;
     if snd piece = Pawn \<and> (to_row = 0 \<or> to_row = 7)
     then Some (s5\<lparr>promotion_pending := True, promotion_pos := Some (to_row, to_col)\<rparr>)
     else evaluate_terminal
            (invalidate_check_cache
               (update_game_state s5 from_row from_col to_row to_col piece target_piece))
   }"

text \<open>\<open>make_move\<close>\<close>

definition make_move :: "game \<Rightarrow> int \<Rightarrow> int \<Rightarrow> int \<Rightarrow> int \<Rightarrow> game option" where
  "make_move s from_row from_col to_row to_col =
    (if game_over s \<or> edit_mode s then Some s
     else do {
       origin \<leftarrow> board_get (board s) from_row from_col;
       target_piece \<leftarrow> board_get (board s) to_row to_col;
       let is_split_to = is_split_piece (split_manager s) (to_row, to_col);
       piece0 \<leftarrow> origin;
       let is_en_passant = (snd piece0 = Pawn \<and> Some (to_row, to_col) = en_passant s);
       st1 \<leftarrow> move_split_origin s from_row from_col piece0;
       (case st1 of
          Returned s' \<Rightarrow> Some s'
        | Goes_on (s1, piece) \<Rightarrow> do {
            st2 \<leftarrow> move_onto_target s1 to_row to_col target_piece is_split_to;
            (case st2 of
               Returned s' \<Rightarrow> Some s'
             | Goes_on s2 \<Rightarrow>
                 complete_move s2 from_row from_col to_row to_col piece target_piece
                   is_en_passant)
          })
     })"

section \<open>Notions the properties are stated with\<close>

text \<open>
  The king's check status against the live board: what \<open>is_in_check\<close> computes in simple
  mode.
\<close>

definition in_check_now :: "game \<Rightarrow> color \<Rightarrow> bool" where
  "in_check_now s color =
    (case find_king (board s) color of
       None \<Rightarrow> False
     | Some k \<Rightarrow> is_square_attacked s (fst k) (snd k) color True)"

text \<open>
  Castling to one side as the specification words it: the never-moved flag of the side,
  the squares between king and rook empty, the squares the king crosses and reaches not
  attacked.
\<close>

definition king_side_free :: "game \<Rightarrow> int \<Rightarrow> int \<Rightarrow> bool" where
  "king_side_free s row col =
    (king_nm (castling s (turn s)) \<and>
     all_empty (board s) row [col + 1, col + 2] = Some True \<and>
     \<not> is_square_attacked s row (col + 1) (turn s) True \<and>
     \<not> is_square_attacked s row (col + 2) (turn s) True)"

definition queen_side_free :: "game \<Rightarrow> int \<Rightarrow> int \<Rightarrow> bool" where
  "queen_side_free s row col =
    (queen_nm (castling s (turn s)) \<and>
     all_empty (board s) row [col - 1, col - 2, col - 3] = Some True \<and>
     \<not> is_square_attacked s row (col - 1) (turn s) True \<and>
     \<not> is_square_attacked s row (col - 2) (turn s) True)"

definition castling_possible :: "game \<Rightarrow> int \<Rightarrow> int \<Rightarrow> bool" where
  "castling_possible s row col =
    ((\<exists>c. board_get (board s) row col = Some (Some (c, King))) \<and>
     \<not> in_check_now s (turn s) \<and>
     (king_side_free s row col \<or> queen_side_free s row col))"

text \<open>
  The eligibility flags \<open>can_castle\<close> leaves when it has gone through both sides and found
  the king side free (\<open>k\<close>) and the queen side free (\<open>q\<close>).
\<close>

definition castle_flags :: "bool \<Rightarrow> bool \<Rightarrow> castling_flags \<Rightarrow> castling_flags" where
  "castle_flags k q f =
    (if k \<or> q then f\<lparr>king := k \<or> king f, queen := q \<or> queen f\<rparr>
     else f\<lparr>king := False, queen := False\<rparr>)"

text \<open>The branches of a subsystem, and the group \<open>get_split_positions\<close> makes of them.\<close>

definition branches :: "quantum_subsystem \<Rightarrow> split_branch list" where
  "branches sub = concat (map (\<lambda>q. [branch_a q, branch_b q]) (split_qubits sub))"

definition group_of :: "quantum_subsystem \<Rightarrow> (square \<times> piece) list" where
  "group_of sub = map (\<lambda>br. (pos br, piece_type br)) (branches sub)"

text \<open>
  A piece on \<open>origin\<close> of the board \<open>b\<close> attacks \<open>target\<close> when simple move generation for
  it, with \<open>attacker\<close> to move, gives \<open>target\<close>.
\<close>

definition attacks_from :: "game \<Rightarrow> board \<Rightarrow> color \<Rightarrow> square \<Rightarrow> square \<Rightarrow> bool" where
  "attacks_from s b attacker origin target =
    (case cell_at b (fst origin) (snd origin) of
       None \<Rightarrow> False
     | Some p \<Rightarrow>
         target \<in> set (candidate_moves (s\<lparr>board := b, turn := attacker\<rparr>) (snd p)
                         (fst origin) (snd origin)))"

text \<open>
  The hypothetical board for one branch of a subsystem: the branch's piece is on the
  branch's square, every other branch square of the subsystem is empty, the rest is the
  board.
\<close>

definition hypothetical_board :: "board \<Rightarrow> split_branch \<Rightarrow> quantum_subsystem \<Rightarrow> board" where
  "hypothetical_board b br sub =
    map (\<lambda>r. map (\<lambda>c.
           if (r, c) = pos br then Some (piece_type br)
           else if (r, c) \<in> pos ` set (branches sub) then None
           else cell_at b r c) range8) range8"

text \<open>
  Attack with the uncertainty resolved against the defender: some enemy piece on a square
  that is not in the index attacks the target on the board, or some branch of some
  unmeasured subsystem holding an enemy piece attacks it on the branch's hypothetical
  board.
\<close>

definition attacked_pessimistically :: "game \<Rightarrow> square \<Rightarrow> color \<Rightarrow> bool" where
  "attacked_pessimistically s target color =
    (let enemy = other_color color in
     (\<exists>r\<in>set range8. \<exists>c\<in>set range8.
        map_option fst (cell_at (board s) r c) = Some enemy \<and>
        \<not> is_split_piece (split_manager s) (r, c) \<and>
        attacks_from s (board s) enemy (r, c) target)
     \<or>
     (\<exists>sub\<in>set (subsystems (split_manager s)). \<not> measured sub \<and>
        (\<exists>br\<in>set (branches sub). fst (piece_type br) = enemy \<and>
           attacks_from s (hypothetical_board (board s) br sub) enemy (pos br) target)))"

text \<open>Every branch of every subsystem is a square of the board.\<close>

definition branches_on_board :: "quantum_split_manager \<Rightarrow> bool" where
  "branches_on_board m =
    (\<forall>sub\<in>set (subsystems m). \<forall>br\<in>set (branches sub). on_board (fst (pos br)) (snd (pos br)))"

text \<open>
  What a step leaves alone: the record of the game (turn, captures, en-passant target,
  history, promotion state, the two mode flags); with it the position (board, split
  manager, backend); with that everything but the castling flags.
\<close>

definition same_record :: "game \<Rightarrow> game \<Rightarrow> bool" where
  "same_record s s' =
    (turn s' = turn s \<and> captured s' = captured s \<and> en_passant s' = en_passant s \<and>
     history s' = history s \<and> promotion_pending s' = promotion_pending s \<and>
     promotion_pos s' = promotion_pos s \<and> edit_mode s' = edit_mode s \<and>
     split_mode s' = split_mode s)"

definition same_position :: "game \<Rightarrow> game \<Rightarrow> bool" where
  "same_position s s' =
    (same_record s s' \<and> board s' = board s \<and> split_manager s' = split_manager s \<and>
     backend s' = backend s)"

definition same_but_castling :: "game \<Rightarrow> game \<Rightarrow> bool" where
  "same_but_castling s s' =
    (same_position s s' \<and> check_cache s' = check_cache s \<and> game_over s' = game_over s \<and>
     draw_by_stalemate s' = draw_by_stalemate s)"


section \<open>Positions and subsystems used as test inputs\<close>

definition white_knight :: piece where
  "white_knight = (White, Knight)"

definition empty_board :: board where
  "empty_board = replicate 8 (replicate 8 None)"

text \<open>A backend whose every run returns the same bit string.\<close>

definition constant_backend :: "string \<Rightarrow> backend" where
  "constant_backend bits = \<lparr>samples = (\<lambda>_. bits), runs = 0\<rparr>"

text \<open>
  The manager after \<open>create_split_qubit\<close> has registered a split (the manager as it was,
  should the call raise).
\<close>

definition split_at :: "quantum_split_manager \<Rightarrow> square \<Rightarrow> square \<Rightarrow> piece \<Rightarrow> quantum_split_manager" where
  "split_at m from_pos to_pos piece =
    (case create_split_qubit m from_pos to_pos piece of Some (m', _) \<Rightarrow> m' | None \<Rightarrow> m)"

text \<open>The subsystem of a knight split between b1 and c3.\<close>

definition knight_subsystem :: quantum_subsystem where
  "knight_subsystem = subsystems (split_at new_manager (7, 1) (5, 2) white_knight) ! 0"

text \<open>
  The start position after these clicks in edit mode: delete a1, e1, g1 and h1, place a
  white king on b1 (over the knight), leave edit mode. White is to move and the
  never-moved flags are as at the start.
\<close>

definition edited_b1_game :: game where
  "edited_b1_game =
    (new_game (constant_backend ''0''))
      \<lparr>board := put_cell (put_cell (put_cell (put_cell (put_cell INITIAL_BOARD 7 0 None) 7 4 None)
                  7 6 None) 7 7 None) 7 1 (Some (White, King))\<rparr>"

text \<open>
  White king on e1, black king on h6, and a black rook split between a8 and e8, shown on
  both squares; the backend will answer 0, which makes a8 the real square.
\<close>

definition split_rook_game :: game where
  "split_rook_game =
    (new_game (constant_backend ''0''))
      \<lparr>board := put_cell (put_cell (put_cell (put_cell empty_board 7 4 (Some (White, King)))
                  2 7 (Some (Black, King))) 0 0 (Some (Black, Rook))) 0 4 (Some (Black, Rook)),
        split_manager := split_at new_manager (0, 0) (0, 4) (Black, Rook)\<rparr>"

text \<open>The start position with f1 and g1 emptied.\<close>

definition short_castle_game :: game where
  "short_castle_game =
    (new_game (constant_backend ''0''))
      \<lparr>board := put_cell (put_cell INITIAL_BOARD 7 5 None) 7 6 None\<rparr>"

text \<open>
  A position without a white king in which the cache still holds an answer for White.
\<close>

definition kingless_game :: game where
  "kingless_game =
    (new_game (constant_backend ''0''))
      \<lparr>board := put_cell INITIAL_BOARD 7 4 None,
        check_cache := (\<lambda>_. None)(White := Some True)\<rparr>"

text \<open>The start position in edit mode.\<close>

definition editing_game :: game where
  "editing_game = (new_game (constant_backend ''0''))\<lparr>edit_mode := True\<rparr>"

text \<open>The two kings on e1 and e8, nothing else.\<close>

definition two_kings :: board where
  "two_kings = put_cell (put_cell empty_board 7 4 (Some (White, King))) 0 4 (Some (Black, King))"

text \<open>A white knight on b1, White to move, split mode on.\<close>

definition knight_split_game :: game where
  "knight_split_game =
    (new_game (constant_backend ''1''))
      \<lparr>board := put_cell two_kings 7 1 (Some white_knight), split_mode := True\<rparr>"



text \<open>The castling flags of a game in which both kings have moved.\<close>

definition kings_moved :: "color \<Rightarrow> castling_flags" where
  "kings_moved = (\<lambda>_. \<lparr>king = False, queen = False, king_nm = False, queen_nm = False\<rparr>)"

text \<open>
  White king on a5 and white pawn on b5, black rook on h5, black pawn on c7, black king
  on e8; Black is to move and no split has been made.
\<close>

definition pinned_pawn_game :: game where
  "pinned_pawn_game =
    (new_game (constant_backend ''0''))
      \<lparr>board := put_cell (put_cell (put_cell (put_cell (put_cell empty_board
                  3 0 (Some (White, King))) 3 1 (Some (White, Pawn)))
                  3 7 (Some (Black, Rook))) 1 2 (Some (Black, Pawn))) 0 4 (Some (Black, King)),
        turn := Black, castling := kings_moved\<rparr>"


text \<open>A white pawn on a7, White to move, split mode on.\<close>

definition pawn_split_game :: game where
  "pawn_split_game =
    (new_game (constant_backend ''1''))
      \<lparr>board := put_cell two_kings 1 0 (Some (White, Pawn)), split_mode := True\<rparr>"

section \<open>Basic facts\<close>

subsection \<open>Indexing the board\<close>

lemma py_index_less: "py_index xs i = Some n \<Longrightarrow> n < length xs"
  by (auto simp: py_index_def Let_def split: if_splits)

lemma py_index_cong: "length xs = length ys \<Longrightarrow> py_index xs i = py_index ys i"
  by (simp add: py_index_def)

lemma board_set_eq_Some:
  "board_set b r c v = Some b' \<longleftrightarrow>
     (\<exists>i j. py_index b r = Some i \<and> py_index (b ! i) c = Some j \<and> b' = b[i := (b ! i)[j := v]])"
  by (auto simp: board_set_def split: option.splits)

lemma board_get_eq_Some:
  "board_get b r c = Some x \<longleftrightarrow>
     (\<exists>i j. py_index b r = Some i \<and> py_index (b ! i) c = Some j \<and> x = b ! i ! j)"
  by (auto simp: board_get_def split: option.splits)

lemma py_index_row_update:
  "i < length b \<Longrightarrow> py_index ((b[k := (b ! k)[l := v]]) ! i) c = py_index (b ! i) c"
  by (cases "i = k") (auto intro: py_index_cong)

lemma py_index_board_update: "py_index (b[k := row]) r = py_index b r"
  by (rule py_index_cong) simp

text \<open>Writing a move on the board and taking it back gives the board back.\<close>

lemma unmake_restores:
  assumes "board_get b fr fc = Some p" and "board_get b tr tc = Some cap"
  shows "\<exists>b1 b2 b3. board_set b tr tc p = Some b1 \<and> board_set b1 fr fc None = Some b2 \<and>
           board_set b2 fr fc p = Some b3 \<and> board_set b3 tr tc cap = Some b"
proof -
  from assms obtain i j k l where
    ij: "py_index b fr = Some i" "py_index (b ! i) fc = Some j" "p = b ! i ! j" and
    kl: "py_index b tr = Some k" "py_index (b ! k) tc = Some l" "cap = b ! k ! l"
    by (auto simp: board_get_eq_Some)
  have lt: "i < length b" "k < length b" "j < length (b ! i)" "l < length (b ! k)"
    using ij kl by (auto dest: py_index_less)
  define b1 where "b1 = b[k := (b ! k)[l := p]]"
  define b2 where "b2 = b1[i := (b1 ! i)[j := None]]"
  define b3 where "b3 = b2[i := (b2 ! i)[j := p]]"
  have s1: "board_set b tr tc p = Some b1"
    using kl by (simp add: board_set_eq_Some b1_def)
  have s2: "board_set b1 fr fc None = Some b2"
    using ij lt
    by (simp add: board_set_eq_Some b1_def b2_def py_index_board_update py_index_row_update)
  have s3: "board_set b2 fr fc p = Some b3"
    using ij lt
    by (simp add: board_set_eq_Some b1_def b2_def b3_def py_index_board_update
          py_index_row_update)
  have b4: "b3[k := (b3 ! k)[l := cap]] = b"
    using lt ij(3) kl(3)
    by (cases "i = k"; cases "j = l")
       (auto simp: b1_def b2_def b3_def list_eq_iff_nth_eq nth_list_update)
  have s4: "board_set b3 tr tc cap = Some b"
    using kl lt b4
    by (simp add: board_set_eq_Some b1_def b2_def b3_def py_index_board_update
          py_index_row_update)
  from s1 s2 s3 s4 show ?thesis by blast
qed

lemma set_range8: "set range8 = {0..7}"
  by (auto simp: range8_def)

lemma range8_nth: "0 \<le> r \<Longrightarrow> r < 8 \<Longrightarrow> range8 ! nat r = r"
proof -
  assume "0 \<le> r" "r < 8"
  then have "r = 0 \<or> r = 1 \<or> r = 2 \<or> r = 3 \<or> r = 4 \<or> r = 5 \<or> r = 6 \<or> r = 7" by arith
  then show ?thesis by (auto simp: range8_def)
qed

lemma length_range8 [simp]: "length range8 = 8"
  by (simp add: range8_def)

lemma cell_at_grid:
  assumes "on_board r c"
  shows "cell_at (map (\<lambda>r. map (f r) range8) range8) r c = f r c"
proof -
  have "nat r < length range8" "nat c < length range8"
    using assms by (auto simp: on_board_def)
  then show ?thesis
    using assms by (simp add: cell_at_def on_board_def range8_nth del: length_range8)
qed

lemma wf_board_grid: "wf_board (map (\<lambda>r. map (f r) range8) range8)"
  by (simp add: wf_board_def list_all_iff)

lemma wf_board_put:
  assumes "wf_board b"
  shows "wf_board (put_cell b r c v)"
proof (cases "nat r < length b")
  case True
  then have "length ((b ! nat r)[nat c := v]) = 8"
    using assms by (simp add: wf_board_def list_all_length)
  then show ?thesis
    using assms True
    by (auto simp: wf_board_def put_cell_def list_all_length nth_list_update)
next
  case False
  then have "b[nat r := (b ! nat r)[nat c := v]] = b"
    by (intro list_update_beyond) simp
  then show ?thesis using assms by (simp add: put_cell_def)
qed

lemma cell_at_put:
  assumes "wf_board b" "on_board r c" "on_board r' c'"
  shows "cell_at (put_cell b r c v) r' c' = (if (r', c') = (r, c) then v else cell_at b r' c')"
proof -
  have l: "nat r < length b" "nat r' < length b" "nat c < length (b ! nat r)"
    using assms by (auto simp: wf_board_def on_board_def list_all_length)
  have ne: "r' \<noteq> r \<Longrightarrow> nat r' \<noteq> nat r" "c' \<noteq> c \<Longrightarrow> nat c' \<noteq> nat c"
    using assms by (auto simp: on_board_def)
  show ?thesis
    using l ne by (auto simp: cell_at_def put_cell_def nth_list_update)
qed

lemma board_eqI:
  assumes "wf_board b" "wf_board b'"
    and "\<And>r c. on_board r c \<Longrightarrow> cell_at b r c = cell_at b' r c"
  shows "b = b'"
proof (rule nth_equalityI)
  show "length b = length b'" using assms by (simp add: wf_board_def)
next
  fix i assume i: "i < length b"
  then have i8: "i < 8" using assms by (simp add: wf_board_def)
  show "b ! i = b' ! i"
  proof (rule nth_equalityI)
    show "length (b ! i) = length (b' ! i)"
      using assms i8 by (simp add: wf_board_def list_all_length)
  next
    fix j assume "j < length (b ! i)"
    then have j8: "j < 8" using assms i8 by (simp add: wf_board_def list_all_length)
    have "on_board (int i) (int j)" using i8 j8 by (simp add: on_board_def)
    from assms(3) [OF this] show "b ! i ! j = b' ! i ! j" by (simp add: cell_at_def)
  qed
qed

subsection \<open>The move generators\<close>

text \<open>The generators read the board, the turn and the en-passant target only.\<close>

lemma slide_cong:
  "board t = board s \<Longrightarrow> turn t = turn s \<Longrightarrow> slide t dr dc r c = slide s dr dc r c"
proof (induction s dr dc r c rule: slide.induct)
  case (1 s dr dc r c)
  then show ?case
    by (simp add: slide.simps [of t dr dc r c] slide.simps [of s dr dc r c]
          split: option.splits)
qed

lemma candidate_moves_cong:
  assumes "board t = board s" "turn t = turn s" "en_passant t = en_passant s"
  shows "candidate_moves t k r c = candidate_moves s k r c"
  by (simp only: candidate_moves_def get_pawn_moves_def get_knight_moves_def
        get_bishop_moves_def get_rook_moves_def get_queen_moves_def get_king_moves_simple_def
        free_or_enemy_def assms slide_cong [OF assms(1,2)])

lemma get_valid_moves_simple_cong:
  assumes "board t = board s" "turn t = turn s" "en_passant t = en_passant s"
    "game_over t = game_over s" "edit_mode t = edit_mode s"
  shows "get_valid_moves_simple t c r = get_valid_moves_simple s c r"
  by (simp only: get_valid_moves_simple_def assms candidate_moves_cong [OF assms(1-3)])

lemma is_square_attacked_cong:
  assumes "board t = board s" "en_passant t = en_passant s"
    "game_over t = game_over s" "edit_mode t = edit_mode s"
    "split_manager t = split_manager s"
  shows "is_square_attacked t r c col simple = is_square_attacked s r c col simple"
proof -
  have a: "get_valid_moves_simple (t\<lparr>turn := x\<rparr>) c' r'
             = get_valid_moves_simple (s\<lparr>turn := x\<rparr>) c' r'"
    for x c' r'
    by (rule get_valid_moves_simple_cong) (simp_all add: assms)
  have b: "get_valid_moves_simple (t\<lparr>board := bd, turn := x\<rparr>) c' r'
             = get_valid_moves_simple (s\<lparr>board := bd, turn := x\<rparr>) c' r'"
    for x bd c' r'
    by (rule get_valid_moves_simple_cong) (simp_all add: assms)
  show ?thesis
    by (simp only: is_square_attacked_def a b assms)
qed

text \<open>
  What the pawn, knight, bishop, rook and queen generators and the king's steps give is
  on the board.
\<close>

lemma slide_on_board: "m \<in> set (slide s dr dc r c) \<Longrightarrow> on_board (fst m) (snd m)"
proof (induction s dr dc r c rule: slide.induct)
  case (1 s dr dc r c)
  from "1.prems" "1.IH" show ?case
    by (subst (asm) slide.simps) (auto split: if_splits option.splits)
qed

lemma pawn_on_board:
  assumes "0 \<le> col" "col < 8" "m \<in> set (get_pawn_moves s row col)"
  shows "on_board (fst m) (snd m)"
  using assms
  by (auto simp: get_pawn_moves_def on_board_def Let_def split: if_splits option.splits)

lemma candidate_moves_on_board:
  assumes "0 \<le> col" "col < 8" "m \<in> set (candidate_moves s k row col)"
  shows "on_board (fst m) (snd m)"
proof (cases k)
  case Pawn
  with assms show ?thesis by (auto simp: candidate_moves_def dest: pawn_on_board)
next
  case Knight
  with assms have "m \<in> set (get_knight_moves s row col)" by (simp add: candidate_moves_def)
  then show ?thesis
    unfolding get_knight_moves_def set_filter by auto
next
  case Bishop
  with assms show ?thesis
    by (auto simp: candidate_moves_def get_bishop_moves_def dest: slide_on_board)
next
  case Rook
  with assms show ?thesis
    by (auto simp: candidate_moves_def get_rook_moves_def dest: slide_on_board)
next
  case Queen
  with assms show ?thesis
    by (auto simp: candidate_moves_def get_queen_moves_def get_rook_moves_def
          get_bishop_moves_def dest: slide_on_board)
next
  case King
  with assms have "m \<in> set (get_king_moves_simple s row col)" by (simp add: candidate_moves_def)
  then show ?thesis
    unfolding get_king_moves_simple_def set_filter by auto
qed

subsection \<open>Check in simple mode, the king, the castling flags\<close>

lemma is_in_check_simple:
  "is_in_check s c True = Some (in_check_now s c, s)"
  by (simp add: is_in_check_def in_check_now_def Let_def split: option.splits)

lemma fold_rows_None:
  "fold (\<lambda>r kp. case f r of Some c \<Rightarrow> Some (r, c) | None \<Rightarrow> kp) rs init = None
     \<longleftrightarrow> init = None \<and> (\<forall>r\<in>set rs. f r = None)"
  by (induction rs arbitrary: init) (auto split: option.splits)

lemma find_king_None:
  "find_king b color = None \<longleftrightarrow>
     (\<forall>r\<in>set range8. \<forall>c\<in>set range8. cell_at b r c \<noteq> Some (color, King))"
  unfolding find_king_def fold_rows_None by (auto simp: find_None_iff)

lemma set_side_fields [simp]:
  "board (set_side s f) = board s"
  "turn (set_side s f) = turn s"
  "castling (set_side s f) (turn s) = f (castling s (turn s))"
  "en_passant (set_side s f) = en_passant s"
  "game_over (set_side s f) = game_over s"
  "edit_mode (set_side s f) = edit_mode s"
  "split_manager (set_side s f) = split_manager s"
  by (simp_all add: set_side_def)

lemma set_side_set_side [simp]: "set_side (set_side s f) g = set_side s (\<lambda>x. g (f x))"
  by (simp add: set_side_def)

lemma is_square_attacked_set_side [simp]:
  "is_square_attacked (set_side s f) r c col simple = is_square_attacked s r c col simple"
  by (rule is_square_attacked_cong) simp_all

lemma in_check_now_set_side [simp]: "in_check_now (set_side s f) c = in_check_now s c"
  by (simp add: in_check_now_def split: option.splits)

lemma set_side_eqI:
  "g (castling s (turn s)) = h (castling s (turn s)) \<Longrightarrow> set_side s g = set_side s h"
  by (simp add: set_side_def)

lemma set_side_same: "f (castling s (turn s)) = castling s (turn s) \<Longrightarrow> set_side s f = s"
  by (simp add: set_side_def)

lemma side_free_set_side [simp]:
  "king_nm (f (castling s (turn s))) = king_nm (castling s (turn s)) \<Longrightarrow>
     king_side_free (set_side s f) row col = king_side_free s row col"
  "queen_nm (f (castling s (turn s))) = queen_nm (castling s (turn s)) \<Longrightarrow>
     queen_side_free (set_side s f) row col = queen_side_free s row col"
  by (simp_all add: king_side_free_def queen_side_free_def)

lemma try_king_side_eq:
  assumes "try_king_side s row col = Some (k, s1)"
  shows "k = king_side_free s row col"
    and "s1 = (if k then set_side s (\<lambda>f. f\<lparr>king := True\<rparr>) else s)"
  using assms
  by (auto simp: try_king_side_def king_side_free_def simp del: all_empty.simps
        split: if_splits option.splits)

lemma try_queen_side_eq:
  assumes "try_queen_side s row col = Some (q, s1)"
  shows "q = queen_side_free s row col"
    and "s1 = (if q then set_side s (\<lambda>f. f\<lparr>queen := True\<rparr>) else s)"
  using assms
  by (auto simp: try_queen_side_def queen_side_free_def simp del: all_empty.simps
        split: if_splits option.splits)

text \<open>The answer of \<open>can_castle\<close> and the state it leaves.\<close>

lemma can_castle_cases:
  assumes "can_castle s row col = Some (r, s')"
  shows "r = castling_possible s row col \<and>
         (s' = s \<or>
          s' = set_side s (castle_flags (king_side_free s row col) (queen_side_free s row col)))"
proof -
  from assms obtain p where p: "board_get (board s) row col = Some (Some p)"
    by (auto simp: can_castle_def split: option.splits)
  have pk: "(\<exists>c. board_get (board s) row col = Some (Some (c, King))) = (snd p = King)"
    using p by (cases p) auto
  show ?thesis
  proof (cases "snd p \<noteq> King \<or>
      \<not> king_nm (castling s (turn s)) \<and> \<not> queen_nm (castling s (turn s))")
    case True
    then have "r = False" "s' = s"
      using assms p by (auto simp: can_castle_def)
    moreover have "\<not> castling_possible s row col"
      using True pk by (auto simp: castling_possible_def king_side_free_def queen_side_free_def)
    ultimately show ?thesis by simp
  next
    case go: False
    show ?thesis
    proof (cases "in_check_now s (turn s)")
      case True
      then have "r = False" "s' = s"
        using assms p go by (auto simp: can_castle_def is_in_check_simple)
      then show ?thesis using True by (simp add: castling_possible_def)
    next
      case False
      from assms p go False obtain k s1 q s2 where
        ks: "try_king_side s row col = Some (k, s1)" and
        qs: "try_queen_side s1 row col = Some (q, s2)" and
        res: "(r, s') = (if k \<or> q then (True, s2)
                else (False, set_side (set_side s2 (\<lambda>f. f\<lparr>queen := False\<rparr>))
                               (\<lambda>f. f\<lparr>king := False\<rparr>)))"
        by (auto simp: can_castle_def is_in_check_simple split: Option.bind_splits if_splits)
      note k = try_king_side_eq [OF ks]
      have q1: "queen_side_free s1 row col = queen_side_free s row col"
        unfolding k(2) by simp
      note q = try_queen_side_eq [OF qs, unfolded q1]
      have r: "r = (k \<or> q)" using res by (auto split: if_splits)
      have "s' = set_side s (castle_flags k q)"
        using res unfolding q(2) k(2)
        by (cases k; cases q)
           (auto simp: castle_flags_def intro!: set_side_eqI castling_flags.equality)
      then show ?thesis
        using r k(1) q(1) pk go False by (auto simp: castling_possible_def)
    qed
  qed
qed

subsection \<open>The groups of live branches and the hypothetical board\<close>

lemma group_qubits_all:
  assumes "\<forall>x\<in>set processed. fst x = sid \<longrightarrow> snd x < n"
  shows "fst (group_qubits sid (enumerate n qs) processed) =
           map (\<lambda>br. (pos br, piece_type br)) (concat (map (\<lambda>q. [branch_a q, branch_b q]) qs))
         \<and> (\<forall>x\<in>set (snd (group_qubits sid (enumerate n qs) processed)).
              x \<in> set processed \<or> fst x = sid)"
  using assms
proof (induction qs arbitrary: n processed)
  case Nil
  then show ?case by simp
next
  case (Cons q qs)
  have fresh: "(sid, n) \<notin> set processed"
    using Cons.prems by force
  have "\<forall>x\<in>set ((sid, n) # processed). fst x = sid \<longrightarrow> snd x < Suc n"
    using Cons.prems by (auto simp: less_Suc_eq)
  from Cons.IH [OF this] fresh show ?case
    by (auto simp: split_beta Let_def)
qed

lemma split_groups_from_all:
  assumes "\<forall>x\<in>set processed. fst x < k"
  shows "split_groups_from (enumerate k subs) processed =
           filter (\<lambda>g. g \<noteq> []) (map group_of (filter (\<lambda>sub. \<not> measured sub) subs))"
  using assms
proof (induction subs arbitrary: k processed)
  case Nil
  then show ?case by simp
next
  case (Cons sub subs)
  have a: "\<forall>x\<in>set processed. fst x = k \<longrightarrow> snd x < 0"
    using Cons.prems by auto
  note g = group_qubits_all [OF a, of "split_qubits sub"]
  show ?case
  proof (cases "measured sub")
    case True
    have "\<forall>x\<in>set processed. fst x < Suc k" using Cons.prems by (auto simp: less_Suc_eq)
    from Cons.IH [OF this] True show ?thesis by simp
  next
    case False
    obtain grp processed' where
      gq: "group_qubits k (enumerate 0 (split_qubits sub)) processed = (grp, processed')"
      by (cases "group_qubits k (enumerate 0 (split_qubits sub)) processed")
    have grp: "grp = group_of sub"
      using g gq by (simp add: group_of_def branches_def)
    have "\<forall>x\<in>set processed'. fst x < Suc k"
      using g gq Cons.prems by (auto simp: less_Suc_eq)
    from Cons.IH [OF this] False gq grp show ?thesis
      by simp
  qed
qed

text \<open>
  \<open>processed_qubits\<close> never holds a qubit back: the groups are those of the unmeasured
  subsystems.
\<close>

lemma get_split_positions_eq:
  "get_split_positions m =
     filter (\<lambda>g. g \<noteq> []) (map group_of (filter (\<lambda>sub. \<not> measured sub) (subsystems m)))"
  unfolding get_split_positions_def by (rule split_groups_from_all) simp

lemma clear_others:
  assumes "wf_board tb" "\<forall>x\<in>set grp. on_board (fst (fst x)) (snd (fst x))"
  shows "wf_board (fold (\<lambda>(other_pos, _) tb.
            if other_pos \<noteq> p then put_cell tb (fst other_pos) (snd other_pos) None else tb) grp tb)
       \<and> (\<forall>r c. on_board r c \<longrightarrow>
            cell_at (fold (\<lambda>(other_pos, _) tb.
              if other_pos \<noteq> p then put_cell tb (fst other_pos) (snd other_pos) None else tb)
              grp tb) r c
            = (if (r, c) \<in> fst ` set grp \<and> (r, c) \<noteq> p then None else cell_at tb r c))"
  using assms
proof (induction grp arbitrary: tb)
  case Nil
  then show ?case by simp
next
  case (Cons x grp)
  obtain q y where x: "x = (q, y)" by (cases x)
  have q: "on_board (fst q) (snd q)" using Cons.prems x by simp
  let ?tb = "if q \<noteq> p then put_cell tb (fst q) (snd q) None else tb"
  have wf: "wf_board ?tb" using Cons.prems by (simp add: wf_board_put)
  have rest: "\<forall>x\<in>set grp. on_board (fst (fst x)) (snd (fst x))" using Cons.prems by simp
  note ih = Cons.IH [OF wf rest]
  have c: "cell_at ?tb r c = (if (r, c) = q \<and> q \<noteq> p then None else cell_at tb r c)"
    if "on_board r c" for r c
    using cell_at_put [OF Cons.prems(1) q that] by (cases q) auto
  show ?case
    using ih c by (auto simp: x)
qed

text \<open>The board the code builds for a branch is the hypothetical board of the branch.\<close>

lemma temp_board_eq:
  assumes "wf_board b" "br \<in> set (branches sub)"
    "\<forall>br\<in>set (branches sub). on_board (fst (pos br)) (snd (pos br))"
  shows "temp_board b (pos br) (piece_type br) (group_of sub) = hypothetical_board b br sub"
proof (rule board_eqI)
  have p: "on_board (fst (pos br)) (snd (pos br))" using assms by blast
  have wf: "wf_board (put_cell b (fst (pos br)) (snd (pos br)) (Some (piece_type br)))"
    using assms(1) by (rule wf_board_put)
  have g: "\<forall>x\<in>set (group_of sub). on_board (fst (fst x)) (snd (fst x))"
    using assms(3) by (auto simp: group_of_def)
  note co = clear_others [OF wf g, of "pos br"]
  show "wf_board (temp_board b (pos br) (piece_type br) (group_of sub))"
    unfolding temp_board_def using co by blast
  show "wf_board (hypothetical_board b br sub)"
    unfolding hypothetical_board_def by (rule wf_board_grid)
  fix r c assume rc: "on_board r c"
  have fs: "fst ` set (group_of sub) = pos ` set (branches sub)"
    by (force simp: group_of_def)
  show "cell_at (temp_board b (pos br) (piece_type br) (group_of sub)) r c
          = cell_at (hypothetical_board b br sub) r c"
    unfolding temp_board_def hypothetical_board_def
    using co rc cell_at_put [OF assms(1) p rc, of "Some (piece_type br)"]
    by (cases "pos br") (auto simp: cell_at_grid fs)
qed

lemma classical_probe:
  assumes "\<not> game_over s" "\<not> edit_mode s"
  shows "(case cell_at (board s) r c of
            None \<Rightarrow> False
          | Some p \<Rightarrow>
              fst p = enemy \<and> \<not> is_split_piece (split_manager s) (r, c) \<and>
              target \<in> set (get_valid_moves_simple (s\<lparr>turn := enemy\<rparr>) c r))
         = (map_option fst (cell_at (board s) r c) = Some enemy \<and>
            \<not> is_split_piece (split_manager s) (r, c) \<and>
            attacks_from s (board s) enemy (r, c) target)"
proof -
  have "s\<lparr>board := board s, turn := enemy\<rparr> = s\<lparr>turn := enemy\<rparr>" by simp
  then show ?thesis
    using assms
    by (cases "cell_at (board s) r c")
       (auto simp: attacks_from_def get_valid_moves_simple_def)
qed

lemma branch_probe:
  assumes "\<not> game_over s" "\<not> edit_mode s" "wf_board (board s)" "br \<in> set (branches sub)"
    "\<forall>br\<in>set (branches sub). on_board (fst (pos br)) (snd (pos br))"
  shows "target \<in> set (get_valid_moves_simple
            (s\<lparr>board := temp_board (board s) (pos br) (piece_type br) (group_of sub),
               turn := enemy\<rparr>) (snd (pos br)) (fst (pos br)))
         = attacks_from s (hypothetical_board (board s) br sub) enemy (pos br) target"
proof -
  have p: "on_board (fst (pos br)) (snd (pos br))" using assms by blast
  have c: "cell_at (hypothetical_board (board s) br sub) (fst (pos br)) (snd (pos br))
             = Some (piece_type br)"
    unfolding hypothetical_board_def by (simp add: cell_at_grid [OF p])
  show ?thesis
    using assms(1,2) c
    by (simp add: temp_board_eq [OF assms(3-5)] attacks_from_def get_valid_moves_simple_def)
qed

subsection \<open>What the queries leave alone\<close>

lemma same_refl [simp]: "same_record s s" "same_position s s" "same_but_castling s s"
  by (simp_all add: same_record_def same_position_def same_but_castling_def)

lemma same_record_trans: "same_record a b \<Longrightarrow> same_record b c \<Longrightarrow> same_record a c"
  by (simp add: same_record_def)

lemma same_position_trans: "same_position a b \<Longrightarrow> same_position b c \<Longrightarrow> same_position a c"
  by (simp add: same_position_def same_record_def)

lemma same_but_castling_trans:
  "same_but_castling a b \<Longrightarrow> same_but_castling b c \<Longrightarrow> same_but_castling a c"
  by (simp add: same_but_castling_def same_position_def same_record_def)

lemma same_but_castling_set_side [simp]: "same_but_castling s (set_side s f)"
  by (simp add: same_but_castling_def same_position_def same_record_def set_side_def)

lemma is_legal_move_state:
  assumes "is_legal_move s fr fc tr tc = Some (r, s')"
  shows "s' = s"
proof (cases "game_over s \<or> edit_mode s")
  case True
  with assms show ?thesis by (auto simp: is_legal_move_def)
next
  case False
  from assms False obtain p cap where
    g: "board_get (board s) fr fc = Some p" "board_get (board s) tr tc = Some cap"
    by (auto simp: is_legal_move_def split: Option.bind_splits)
  from unmake_restores [OF g] obtain b1 b2 b3 where
    w: "board_set (board s) tr tc p = Some b1" "board_set b1 fr fc None = Some b2"
       "board_set b2 fr fc p = Some b3" "board_set b3 tr tc cap = Some (board s)"
    by blast
  from assms False g w show ?thesis
    by (auto simp: is_legal_move_def is_in_check_simple split: if_splits)
qed

lemma keep_legal_state: "keep_legal s row col ms = Some (r, s') \<Longrightarrow> s' = s"
  by (induction ms arbitrary: r)
     (auto split: option.splits dest!: is_legal_move_state)

lemma first_legal_state: "first_legal s row col ms = Some (r, s') \<Longrightarrow> s' = s"
  by (induction ms arbitrary: r)
     (auto split: option.splits bool.splits dest!: is_legal_move_state)

lemma can_castle_frame: "can_castle s row col = Some (r, s') \<Longrightarrow> same_but_castling s s'"
  by (drule can_castle_cases) auto

lemma get_king_moves_frame:
  "get_king_moves s row col = Some (ms, s') \<Longrightarrow> same_but_castling s s'"
  by (auto simp: get_king_moves_def Let_def split: if_splits option.splits bool.splits
        dest: can_castle_frame)

lemma get_valid_moves_frame:
  "get_valid_moves s col row = Some (ms, s') \<Longrightarrow> same_but_castling s s'"
  by (auto simp: get_valid_moves_def split: if_splits option.splits
        dest!: keep_legal_state get_king_moves_frame)

lemma some_legal_move_frame:
  "some_legal_move s color sqs = Some (r, s') \<Longrightarrow> same_but_castling s s'"
proof (induction sqs arbitrary: s)
  case Nil
  then show ?case by simp
next
  case (Cons sq sqs)
  show ?case
  proof (cases "cell_at (board s) (fst sq) (snd sq)")
    case None
    with Cons show ?thesis by simp
  next
    case (Some p)
    show ?thesis
    proof (cases "fst p = color")
      case False
      with Cons Some show ?thesis by simp
    next
      case True
      from Cons.prems Some True obtain ms s1 b s2 where
        v: "get_valid_moves s (snd sq) (fst sq) = Some (ms, s1)" and
        f: "first_legal s1 (fst sq) (snd sq) ms = Some (b, s2)" and
        rest: "if b then (r, s') = (True, s2) else some_legal_move s2 color sqs = Some (r, s')"
        by (auto split: option.splits bool.splits)
      have s12: "s2 = s1" using f by (rule first_legal_state)
      have a: "same_but_castling s s2" using get_valid_moves_frame [OF v] s12 by simp
      show ?thesis
      proof (cases b)
        case True
        with rest a show ?thesis by simp
      next
        case False
        with rest have "some_legal_move s2 color sqs = Some (r, s')" by simp
        from Cons.IH [OF this] a show ?thesis by (rule same_but_castling_trans [rotated])
      qed
    qed
  qed
qed


text \<open>The non-simple check query: what it leaves, by its answer.\<close>

lemma is_in_check_frame:
  assumes "is_in_check s c False = Some (r, s')"
  shows "same_record s s'"
    and "castling s' = castling s"
    and "r \<longleftrightarrow> check_cache s' c = Some True"
    and "\<not> r \<Longrightarrow> same_position s s' \<and> game_over s' = game_over s \<and>
           draw_by_stalemate s' = draw_by_stalemate s"
  using assms
  by (auto simp: is_in_check_def Let_def same_record_def same_position_def
        invalidate_check_cache_def
        split: if_splits option.splits)

lemma is_in_check_cached:
  "check_cache s c = Some v \<Longrightarrow> is_in_check s c False = Some (v, s)"
  by (simp add: is_in_check_def)

lemma is_checkmate_frame:
  assumes "is_checkmate s c = Some (m, s')"
  shows "same_record s s'"
    and "check_cache s' c \<noteq> Some True \<Longrightarrow>
           \<not> m \<and> same_position s s' \<and> game_over s' = game_over s \<and>
           draw_by_stalemate s' = draw_by_stalemate s"
    and "m \<Longrightarrow> check_cache s' c = Some True"
proof -
  from assms obtain r s1 where c: "is_in_check s c False = Some (r, s1)"
    by (cases "is_in_check s c False") (auto simp: is_checkmate_def)
  have rest: "if r then (\<exists>found. some_legal_move s1 c all_squares = Some (found, s') \<and> m = (\<not> found))
           else (m, s') = (False, s1)"
  proof (cases r)
    case True
    with assms c show ?thesis
      unfolding is_checkmate_def
      by (cases "some_legal_move s1 c all_squares") (simp_all add: split_beta, force)
  next
    case False
    with assms c show ?thesis
      unfolding is_checkmate_def by simp
  qed
  note f = is_in_check_frame [OF c]
  show "same_record s s'"
  proof (cases r)
    case True
    with rest obtain found where "some_legal_move s1 c all_squares = Some (found, s')" by auto
    from some_legal_move_frame [OF this] have "same_record s1 s'"
      by (simp add: same_but_castling_def same_position_def)
    with f(1) show ?thesis by (rule same_record_trans)
  next
    case False
    with rest f(1) show ?thesis by simp
  qed
  have cache: "r \<Longrightarrow> check_cache s' c = Some True"
  proof -
    assume r
    with rest obtain found where "some_legal_move s1 c all_squares = Some (found, s')" by auto
    from some_legal_move_frame [OF this] have "check_cache s' = check_cache s1"
      by (simp add: same_but_castling_def)
    with f(3) \<open>r\<close> show ?thesis by simp
  qed
  show "\<not> m \<and> same_position s s' \<and> game_over s' = game_over s \<and>
           draw_by_stalemate s' = draw_by_stalemate s"
    if "check_cache s' c \<noteq> Some True"
  proof -
    from that cache have "\<not> r" by blast
    with rest f(4) show ?thesis by simp
  qed
  show "check_cache s' c = Some True" if m
  proof -
    from that rest have r by (auto split: if_splits)
    then show ?thesis by (rule cache)
  qed
qed

lemma is_stalemate_frame:
  assumes "is_stalemate s c = Some (m, s')"
  shows "same_record s s'"
    and "check_cache s' c \<noteq> Some True \<Longrightarrow> same_position s s'"
proof -
  from assms obtain r s1 where c: "is_in_check s c False = Some (r, s1)"
    by (cases "is_in_check s c False") (auto simp: is_stalemate_def)
  have rest: "if r then (m, s') = (False, s1)
           else (\<exists>found. some_legal_move s1 c all_squares = Some (found, s') \<and> m = (\<not> found))"
  proof (cases r)
    case False
    with assms c show ?thesis
      unfolding is_stalemate_def
      by (cases "some_legal_move s1 c all_squares") (simp_all add: split_beta, force)
  next
    case True
    with assms c show ?thesis
      unfolding is_stalemate_def by simp
  qed
  note f = is_in_check_frame [OF c]
  show "same_record s s'"
  proof (cases r)
    case False
    with rest obtain found where "some_legal_move s1 c all_squares = Some (found, s')" by auto
    from some_legal_move_frame [OF this] have "same_record s1 s'"
      by (simp add: same_but_castling_def same_position_def)
    with f(1) show ?thesis by (rule same_record_trans)
  next
    case True
    with rest f(1) show ?thesis by simp
  qed
  show "same_position s s'" if "check_cache s' c \<noteq> Some True"
  proof (cases r)
    case True
    with rest f(3) that show ?thesis by simp
  next
    case False
    with rest obtain found where "some_legal_move s1 c all_squares = Some (found, s')" by auto
    from some_legal_move_frame [OF this] have "same_position s1 s'"
      by (simp add: same_but_castling_def)
    with f(4) [OF False] show ?thesis by (blast intro: same_position_trans)
  qed
qed

lemma same_record_flags [simp]:
  "same_record s (s'\<lparr>game_over := g, draw_by_stalemate := d\<rparr>) = same_record s s'"
  "same_position s (s'\<lparr>game_over := g, draw_by_stalemate := d\<rparr>) = same_position s s'"
  by (simp_all add: same_record_def same_position_def)

text \<open>
  The test for checkmate and stalemate at the end of a half-move: it never touches the
  record of the game, and when it has not found the side to move in check (the cache does
  not hold \<open>True\<close> for it afterwards) it leaves the position as it is.
\<close>

lemma evaluate_terminal_frame:
  assumes "evaluate_terminal s = Some s'"
  shows "same_record s s'"
    and "check_cache s' (turn s) \<noteq> Some True \<Longrightarrow> same_position s s'"
proof -
  from assms obtain m s1 where cm: "is_checkmate s (turn s) = Some (m, s1)"
    by (cases "is_checkmate s (turn s)") (auto simp: evaluate_terminal_def)
  have rest: "if m then s' = s1\<lparr>game_over := True, draw_by_stalemate := False\<rparr>
           else (\<exists>st s2. is_stalemate s1 (turn s1) = Some (st, s2) \<and>
                  s' = (if st then s2\<lparr>game_over := True, draw_by_stalemate := True\<rparr> else s2))"
  proof (cases m)
    case True
    with assms cm show ?thesis
      unfolding evaluate_terminal_def by simp
  next
    case False
    with assms cm show ?thesis
      unfolding evaluate_terminal_def
      by (cases "is_stalemate s1 (turn s1)") (simp_all add: split_beta split: bool.splits, force+)
  qed
  note f = is_checkmate_frame [OF cm]
  have t1: "turn s1 = turn s" using f(1) by (simp add: same_record_def)
  show "same_record s s'"
  proof (cases m)
    case True
    with rest f(1) show ?thesis by simp
  next
    case False
    with rest obtain st s2 where
      sm: "is_stalemate s1 (turn s1) = Some (st, s2)" and
      s': "s' = (if st then s2\<lparr>game_over := True, draw_by_stalemate := True\<rparr> else s2)"
      by auto
    from is_stalemate_frame(1) [OF sm] f(1) have "same_record s s2"
      by (blast intro: same_record_trans)
    with s' show ?thesis by simp
  qed
  show "same_position s s'" if quiet: "check_cache s' (turn s) \<noteq> Some True"
  proof (cases m)
    case True
    with rest f(3) quiet show ?thesis by simp
  next
    case False
    with rest obtain st s2 where
      sm: "is_stalemate s1 (turn s1) = Some (st, s2)" and
      s': "s' = (if st then s2\<lparr>game_over := True, draw_by_stalemate := True\<rparr> else s2)"
      by auto
    have c2: "check_cache s2 (turn s) \<noteq> Some True" using quiet s' by (auto split: if_splits)
    from is_stalemate_frame(2) [OF sm] c2 t1 have p12: "same_position s1 s2" by simp
    have "check_cache s1 (turn s) \<noteq> Some True"
    proof
      assume "check_cache s1 (turn s) = Some True"
      then have "is_in_check s1 (turn s1) False = Some (True, s1)"
        using t1 by (simp add: is_in_check_cached)
      with sm have "s2 = s1" by (simp add: is_stalemate_def)
      with c2 \<open>check_cache s1 (turn s) = Some True\<close> show False by simp
    qed
    from f(2) [OF this] p12 have "same_position s s2" by (blast intro: same_position_trans)
    with s' show ?thesis by simp
  qed
qed

section \<open>The stages of a move\<close>

lemma map_of_fold_delete:
  "map_of (fold AList.delete ps xs) k = (if k \<in> set ps then None else map_of xs k)"
  by (induction ps arbitrary: xs) (auto simp: delete_conv)

lemma fold_measured_facts:
  assumes "fold_measured m t subs b ps = Some (b', ps')"
  shows "set ps \<subseteq> set ps'"
    and "(sid, sub) \<in> set subs \<Longrightarrow> measured sub \<Longrightarrow>
           (p, sid, q, br) \<in> set (global_position_map m) \<Longrightarrow> t = None \<or> t = Some (sid, q) \<Longrightarrow>
           p \<in> set ps'"
  using assms
proof (induction subs arbitrary: b ps)
  case Nil
  { case 1 then show ?case by simp }
  { case 2 then show ?case by simp }
next
  case (Cons x subs)
  obtain i y where x: "x = (i, y)" by (cases x)
  { case 1
    show ?case
    proof (cases "measured y")
      case False
      with 1 x Cons.IH(1) show ?thesis by simp
    next
      case True
      with 1 x obtain b1 where
        "fold_measured m t subs b1
           (ps @ map fst (filter (\<lambda>(p, (sid', q, br)). sid' = i \<and> (t = None \<or> Some (sid', q) = t))
                (global_position_map m))) = Some (b', ps')"
        by (auto split: option.splits)
      from Cons.IH(1) [OF this] show ?thesis by auto
    qed }
  { case 2
    show ?case
    proof (cases "measured y")
      case False
      with 2 x Cons.IH(2) show ?thesis by auto
    next
      case True
      with 2(5) x obtain b1 where
        f: "fold_measured m t subs b1
           (ps @ map fst (filter (\<lambda>(p, (sid', q, br)). sid' = i \<and> (t = None \<or> Some (sid', q) = t))
                (global_position_map m))) = Some (b', ps')"
        by (auto split: option.splits)
      show ?thesis
      proof (cases "(sid, sub) = x")
        case True
        with x 2 have "p \<in> set (ps @ map fst (filter (\<lambda>(p, (sid', q, br)). sid' = i \<and> (t = None \<or> Some (sid', q) = t))
                (global_position_map m)))"
          by force
        with Cons.IH(1) [OF f] show ?thesis by blast
      next
        case False
        with 2 have "(sid, sub) \<in> set subs" by simp
        from Cons.IH(2) [OF this 2(2,3,4) f] show ?thesis .
      qed
    qed }
qed

lemma apply_collapse_to_board_facts:
  assumes "apply_collapse_to_board m b t = Some (b', m')"
  shows "subsystems m' = subsystems m"
    and "map_of (global_position_map m) p = None \<Longrightarrow> map_of (global_position_map m') p = None"
    and "sid < length (subsystems m) \<Longrightarrow> measured (subsystems m ! sid) \<Longrightarrow>
           map_of (global_position_map m) p = Some (sid, q, br) \<Longrightarrow> t = None \<or> t = Some (sid, q) \<Longrightarrow>
           map_of (global_position_map m') p = None"
proof -
  from assms obtain ps where
    f: "fold_measured m t (enumerate 0 (subsystems m)) b [] = Some (b', ps)" and
    m': "m' = m\<lparr>global_position_map := fold AList.delete ps (global_position_map m)\<rparr>"
    by (auto simp: apply_collapse_to_board_def split: option.splits)
  show "subsystems m' = subsystems m" using m' by simp
  show "map_of (global_position_map m') p = None" if "map_of (global_position_map m) p = None"
    using that m' by (simp add: map_of_fold_delete)
  show "map_of (global_position_map m') p = None"
    if "sid < length (subsystems m)" "measured (subsystems m ! sid)"
       "map_of (global_position_map m) p = Some (sid, q, br)" "t = None \<or> t = Some (sid, q)"
  proof -
    have e: "(sid, subsystems m ! sid) \<in> set (enumerate 0 (subsystems m))"
      using that(1) by (simp add: in_set_enumerate_eq)
    have i: "(p, sid, q, br) \<in> set (global_position_map m)"
      using that(3) by (rule map_of_SomeD)
    from fold_measured_facts(2) [OF f e that(2) i that(4)] have "p \<in> set ps" .
    then show ?thesis using m' by (simp add: map_of_fold_delete)
  qed
qed

lemma collapse_measured: "collapse be sub = Some (rm, be', sub') \<Longrightarrow> measured sub'"
  by (auto simp: collapse_def Let_def split: if_splits option.splits)

lemma collapse_qubit_facts:
  assumes "collapse_qubit be m ref = Some (be', m')"
  shows "global_position_map m' = global_position_map m"
    and "length (subsystems m') = length (subsystems m)"
    and "fst ref < length (subsystems m) \<Longrightarrow>
           snd ref < length (split_qubits (subsystems m ! fst ref)) \<Longrightarrow>
           measured (subsystems m' ! fst ref)"
  using assms
  by (auto simp: collapse_qubit_def split: if_splits option.splits dest: collapse_measured)



lemma pass_turn_frame:
  assumes "pass_turn s = Some s'"
  shows "history s' = history s" "captured s' = captured s" "turn s' = other_color (turn s)"
  using evaluate_terminal_frame(1) [OF assms [unfolded pass_turn_def]]
  by (simp_all add: same_record_def invalidate_check_cache_def)

lemma collapse_at_frame:
  assumes "collapse_at s p = Some (s2, rh)"
  shows "same_record s s2"
    and "map_of (global_position_map (split_manager s)) q = None \<Longrightarrow>
           map_of (global_position_map (split_manager s2)) q = None"
proof -
  show "same_record s s2"
    using assms
    by (auto simp: collapse_at_def same_record_def
          split: option.splits Option.bind_splits)
  show "map_of (global_position_map (split_manager s2)) q = None"
    if "map_of (global_position_map (split_manager s)) q = None"
  proof (cases "get_qubit_for_position (split_manager s) p")
    case None
    with assms that show ?thesis by (simp add: collapse_at_def)
  next
    case (Some e)
    obtain sid qi br where e: "e = (sid, qi, br)" by (cases e)
    from assms Some e obtain be m1 b1 m2 where
      cq: "collapse_qubit (backend s) (split_manager s) (sid, qi) = Some (be, m1)" and
      ac: "apply_collapse_to_board m1 (board s) (Some (sid, qi)) = Some (b1, m2)" and
      s2: "s2 = s\<lparr>backend := be, split_manager := m2, board := b1\<rparr>"
      by (auto simp: collapse_at_def split: Option.bind_splits)
    from that collapse_qubit_facts(1) [OF cq]
    have "map_of (global_position_map m1) q = None" by simp
    from apply_collapse_to_board_facts(2) [OF ac this] s2 show ?thesis by simp
  qed
qed


lemma move_split_origin_returned:
  assumes "move_split_origin s fr fc p0 = Some (Returned s')"
  shows "history s' = history s" "captured s' = captured s"
proof -
  from assms obtain s1 where
    pt: "pass_turn s1 = Some s'" and s1: "history s1 = history s" "captured s1 = captured s"
    by (auto simp: move_split_origin_def Let_def
          split: if_splits option.splits Option.bind_splits)
  from pass_turn_frame [OF pt] s1 show "history s' = history s" "captured s' = captured s"
    by simp_all
qed


lemma move_onto_target_returned:
  assumes "move_onto_target s tr tc tgt ist = Some (Returned s')"
  shows "history s' = history s" "captured s' = captured s"
proof -
  from assms have "s' = s \<or> (\<exists>s1 rh. collapse_at s (tr, tc) = Some (s1, rh) \<and> pass_turn s1 = Some s')"
    by (auto simp: move_onto_target_def split: option.splits if_splits Option.bind_splits)
  then have "history s' = history s \<and> captured s' = captured s"
  proof
    assume "s' = s" then show ?thesis by simp
  next
    assume "\<exists>s1 rh. collapse_at s (tr, tc) = Some (s1, rh) \<and> pass_turn s1 = Some s'"
    then obtain s1 rh where c: "collapse_at s (tr, tc) = Some (s1, rh)"
      and p: "pass_turn s1 = Some s'" by blast
    from collapse_at_frame(1) [OF c] pass_turn_frame(1,2) [OF p] show ?thesis
      by (simp add: same_record_def)
  qed
  then show "history s' = history s" "captured s' = captured s" by simp_all
qed

lemma move_onto_target_goes_on:
  assumes "move_onto_target s tr tc tgt ist = Some (Goes_on s2)"
  shows "history s2 = history s" "split_mode s2 = split_mode s" "turn s2 = turn s"
    and "map_of (global_position_map (split_manager s)) q = None \<Longrightarrow>
           map_of (global_position_map (split_manager s2)) q = None"
proof -
  from assms have d: "s2 = s \<or> s2 = add_capture s tgt \<or>
      (\<exists>s1 rh. collapse_at s (tr, tc) = Some (s1, rh) \<and> (s2 = s1 \<or> s2 = add_capture s1 tgt))"
    by (auto simp: move_onto_target_def split: option.splits if_splits Option.bind_splits)
  then show "history s2 = history s" "split_mode s2 = split_mode s" "turn s2 = turn s"
    by (auto dest!: collapse_at_frame(1) simp: same_record_def add_capture_def)
  show "map_of (global_position_map (split_manager s2)) q = None"
    if "map_of (global_position_map (split_manager s)) q = None"
    using d that by (auto dest!: collapse_at_frame(2) simp: add_capture_def)
qed



lemma update_game_state_fields [simp]:
  "history (update_game_state s fr fc tr tc pc tgt) = history s @ [(fr, fc, tr, tc, pc, tgt)]"
  "turn (update_game_state s fr fc tr tc pc tgt) = other_color (turn s)"
  "captured (update_game_state s fr fc tr tc pc tgt) = captured s"
  "split_mode (update_game_state s fr fc tr tc pc tgt) = False"
  "board (update_game_state s fr fc tr tc pc tgt) = board s"
  "split_manager (update_game_state s fr fc tr tc pc tgt) = split_manager s"
  "promotion_pending (update_game_state s fr fc tr tc pc tgt) = promotion_pending s"
  "promotion_pos (update_game_state s fr fc tr tc pc tgt) = promotion_pos s"
  by (simp_all add: update_game_state_def Let_def set_side_def)

lemma invalidate_fields [simp]:
  "history (invalidate_check_cache s) = history s"
  "turn (invalidate_check_cache s) = turn s"
  "captured (invalidate_check_cache s) = captured s"
  "split_mode (invalidate_check_cache s) = split_mode s"
  "board (invalidate_check_cache s) = board s"
  "split_manager (invalidate_check_cache s) = split_manager s"
  "promotion_pending (invalidate_check_cache s) = promotion_pending s"
  "promotion_pos (invalidate_check_cache s) = promotion_pos s"
  by (simp_all add: invalidate_check_cache_def)




subsection \<open>What a completed move leaves on the board\<close>








subsection \<open>No second qubit in a subsystem\<close>

text \<open>
  \<open>create_split_qubit\<close> raises when its origin is in the index and the subsystem it
  points to has a qubit in its circuit, as every subsystem made by \<open>create_split_qubit\<close>
  has.
\<close>

lemma create_split_qubit_chained_raises:
  assumes "map_of (global_position_map m) from_pos = Some (sid, qi, br)"
    and "qc_qubits (subsystems m ! sid) \<noteq> 0"
  shows "create_split_qubit m from_pos to_pos pc = None"
  using assms by (simp add: create_split_qubit_def add_split_qubit_def)

lemma create_split_qubit_new_subsystem:
  assumes "create_split_qubit m from_pos to_pos pc = Some (m', r)"
    and "map_of (global_position_map m) from_pos = None"
  shows "length (subsystems m') = length (subsystems m) + 1"
    and "qc_qubits (subsystems m' ! length (subsystems m)) = 1"
    and "map parent (split_qubits (subsystems m' ! length (subsystems m))) = [None]"
  using assms
  by (auto simp: create_split_qubit_def add_split_qubit_def new_subsystem_def Let_def
        split: if_splits)

section \<open>Collapse of a subsystem\<close>

text \<open>
  C3. Collapse is idempotent. A call of \<open>collapse\<close> that returns leaves the subsystem
  measured with the returned outcome map stored in it; it has run the backend once if the
  subsystem was not measured before, and not at all otherwise. Every later call, whatever
  the backend has done in between, returns the same outcome map, leaves the subsystem as
  it is and does not run the backend: the backend is run at most once for a subsystem.
\<close>

theorem collapse_idempotent:
  assumes "collapse be sub = Some (rm, be1, sub1)"
  shows "measured sub1 \<and> result_map sub1 = rm \<and>
         runs be1 = (if measured sub then runs be else runs be + 1) \<and>
         (\<forall>be2. collapse be2 sub1 = Some (rm, be2, sub1))"
  using assms by (auto simp: collapse_def Let_def split: if_splits option.splits)

theorem collapse_idempotent_witness:
  "case collapse (constant_backend ''1'') knight_subsystem of
     None \<Rightarrow> False
   | Some (rm, be1, sub1) \<Rightarrow>
       \<not> measured knight_subsystem \<and> measured sub1 \<and> result_map sub1 = rm \<and>
       rm = [(0, BrB)] \<and> runs be1 = 1 \<and>
       collapse be1 sub1 = Some (rm, be1, sub1)"
proof -
  have unmeasured: "\<not> measured knight_subsystem"
    by code_simp
  have "map_option fst (collapse (constant_backend ''1'') knight_subsystem)
          = Some [(0, BrB)]"
    by code_simp
  then obtain be1 sub1 where
    h: "collapse (constant_backend ''1'') knight_subsystem = Some ([(0, BrB)], be1, sub1)"
    by auto
  from collapse_idempotent [OF h] unmeasured h show ?thesis
    by (simp add: constant_backend_def)
qed


section \<open>Move generation stays on the board, except castling\<close>

text \<open>
  C10. The castling destinations are not checked against the board. In the edited
  position the white king stands on b1 with its never-moved flags still set; a1 and, through
  the negative indices \<open>col - 2 = -1\<close> and \<open>col - 3 = -2\<close>, h1 and g1 are empty, so
  \<open>can_castle\<close> finds the queen side free and \<open>get_king_moves\<close> produces the move
  \<open>(7, -1)\<close>, which \<open>get_valid_moves\<close> keeps as legal. (For every other generator the
  candidates are on the board: \<open>candidate_moves_on_board\<close>.)
\<close>

theorem castling_destination_off_board:
  "\<not> game_over edited_b1_game \<and> \<not> edit_mode edited_b1_game \<and>
   turn edited_b1_game = White \<and>
   cell_at (board edited_b1_game) 7 1 = Some (White, King) \<and>
   map_option fst (get_king_moves edited_b1_game 7 1) = Some [(7, 0), (7, - 1)] \<and>
   map_option fst (get_valid_moves edited_b1_game 1 7) = Some [(7, 0), (7, - 1)] \<and>
   \<not> on_board 7 (- 1)"
  by code_simp

section \<open>Check\<close>

text \<open>
  C9. Without a king of the colour on the board, \<open>is_in_check\<close> leaves the state as it is
  (so it collapses nothing), in both modes. In simple mode, and in non-simple mode when the
  cache holds no answer for the colour, its answer is \<open>False\<close>; in non-simple mode with a
  cached answer it returns the cached answer, so \<open>True\<close> if that is what the cache holds.
\<close>

theorem is_in_check_no_king:
  assumes "\<forall>r\<in>set range8. \<forall>c\<in>set range8. cell_at (board s) r c \<noteq> Some (color, King)"
  shows "is_in_check s color simple = Some (\<not> simple \<and> check_cache s color = Some True, s)"
proof -
  have "find_king (board s) color = None"
    using assms by (simp add: find_king_None)
  then show ?thesis
    by (cases "check_cache s color") (auto simp: is_in_check_def)
qed

theorem is_in_check_no_king_witness:
  "is_in_check (invalidate_check_cache kingless_game) White False
     = Some (False, invalidate_check_cache kingless_game) \<and>
   is_in_check kingless_game White True = Some (False, kingless_game)"
proof -
  have k: "\<forall>r\<in>set range8. \<forall>c\<in>set range8.
             cell_at (board kingless_game) r c \<noteq> Some (White, King)"
    by code_simp
  then have k': "\<forall>r\<in>set range8. \<forall>c\<in>set range8.
             cell_at (board (invalidate_check_cache kingless_game)) r c \<noteq> Some (White, King)"
    by (simp add: invalidate_check_cache_def)
  from is_in_check_no_king [OF k', of False] is_in_check_no_king [OF k, of True]
  show ?thesis by (simp add: invalidate_check_cache_def)
qed

text \<open>
  The claim as stated fails: no white king is on the board, the cache holds \<open>True\<close> for
  White, and the non-simple query answers \<open>True\<close>.
\<close>

theorem is_in_check_no_king_counterexample:
  "list_all (\<lambda>r. list_all (\<lambda>c. cell_at (board kingless_game) r c \<noteq> Some (White, King))
      range8) range8 \<and>
   map_option fst (is_in_check kingless_game White False) = Some True"
  by code_simp

text \<open>
  C4. An affirmative non-simple \<open>is_in_check\<close> collapses every subsystem, folds the
  outcome into the board and calls \<open>invalidate_check_cache\<close>, but then stores its own
  answer, computed before the collapse, in the cache for the colour. Here the white king on
  e1 is attacked only by the e8 branch of the split black rook; the collapse puts the rook
  on a8; the next non-simple query for White still answers \<open>True\<close> from the cache,
  although on the board as it now is the king is not attacked (the attack probe and the
  simple query both say so).
\<close>

theorem is_in_check_caches_stale_answer:
  "case is_in_check split_rook_game White False of
     None \<Rightarrow> False
   | Some (answer, s) \<Rightarrow>
       answer \<and> list_all measured (subsystems (split_manager s)) \<and>
       global_position_map (split_manager s) = [] \<and>
       cell_at (board s) 0 0 = Some (Black, Rook) \<and> cell_at (board s) 0 4 = None \<and>
       check_cache s White = Some True \<and> check_cache s Black = None \<and>
       map_option fst (is_in_check s White False) = Some True \<and>
       map_option fst (is_in_check s White True) = Some False \<and>
       \<not> is_square_attacked s 7 4 White False"
  by code_simp

section \<open>Legality of a move\<close>

text \<open>
  C5. \<open>is_legal_move\<close> lets through an en-passant capture that leaves the mover in
  check. Black plays c7-c5 past the white pawn on b5; the pawn on c5 now stands between
  the rook on h5 and the white king on a5, and White is not in check. For the capture
  b5 takes c6 \<open>is_legal_move\<close> answers \<open>True\<close> and \<open>get_valid_moves\<close> offers it: the
  simulation writes the pawn on c6 and empties b5, and leaves the pawn on c5 where it is.
  \<open>make_move\<close> takes the pawn on c5 off the board, and the white king is attacked along
  the rank by the rook.
\<close>

theorem is_legal_move_misses_en_passant:
  "case make_move pinned_pawn_game 1 2 3 2 of
     None \<Rightarrow> False
   | Some s \<Rightarrow>
       turn s = White \<and> \<not> game_over s \<and> \<not> edit_mode s \<and> en_passant s = Some (2, 2) \<and>
       cell_at (board s) 3 2 = Some (Black, Pawn) \<and> \<not> in_check_now s White \<and>
       map_option fst (is_legal_move s 3 1 2 2) = Some True \<and>
       map_option fst (get_valid_moves s 1 3) = Some [(2, 1), (2, 2)] \<and>
       (case make_move s 3 1 2 2 of
          None \<Rightarrow> False
        | Some s' \<Rightarrow>
            cell_at (board s') 2 2 = Some (White, Pawn) \<and> cell_at (board s') 3 1 = None \<and>
            cell_at (board s') 3 2 = None \<and> captured s' White = [Some (Black, Pawn)] \<and>
            in_check_now s' White \<and> is_square_attacked s' 3 0 White True)"
  by code_simp

section \<open>Castling\<close>

text \<open>
  C8. \<open>can_castle\<close> computes its answer anew at every call, from the king on the square,
  the king's check status, the never-moved flags, the emptiness of the squares between king
  and rook and the attacks on the squares the king crosses and reaches; the answer does not
  read the eligibility flags. It does write them: nothing in the state changes except the
  flags \<open>king\<close> and \<open>queen\<close> of the side to move, and on an affirmative answer the flag of
  each side found free is set.
\<close>

theorem can_castle_effect:
  assumes "can_castle s row col = Some (r, s')"
  shows "r = castling_possible s row col \<and>
         (\<exists>kf qf. s' = set_side s (\<lambda>f. f\<lparr>king := kf, queen := qf\<rparr>)) \<and>
         (r \<and> king_side_free s row col \<longrightarrow> king (castling s' (turn s))) \<and>
         (r \<and> queen_side_free s row col \<longrightarrow> queen (castling s' (turn s)))"
proof -
  let ?K = "king_side_free s row col" and ?Q = "queen_side_free s row col"
  from can_castle_cases [OF assms] have r: "r = castling_possible s row col"
    and st: "s' = s \<or> s' = set_side s (castle_flags ?K ?Q)"
    by auto
  have rKQ: "r \<Longrightarrow> ?K \<or> ?Q" using r by (simp add: castling_possible_def)
  have nochange: "s' \<noteq> set_side s (castle_flags ?K ?Q) \<Longrightarrow> \<not> r"
  proof -
    assume ne: "s' \<noteq> set_side s (castle_flags ?K ?Q)"
    show "\<not> r"
    proof
      assume r
      from assms obtain p where p: "board_get (board s) row col = Some (Some p)"
        by (auto simp: can_castle_def split: option.splits)
      from \<open>r\<close> assms p have go: "\<not> (snd p \<noteq> King \<or>
          \<not> king_nm (castling s (turn s)) \<and> \<not> queen_nm (castling s (turn s)))"
        by (auto simp: can_castle_def split: if_splits)
      from \<open>r\<close> r have nc: "\<not> in_check_now s (turn s)" by (simp add: castling_possible_def)
      from assms p go nc obtain k s1 q s2 where
        ks: "try_king_side s row col = Some (k, s1)" and
        qs: "try_queen_side s1 row col = Some (q, s2)" and
        res: "(r, s') = (if k \<or> q then (True, s2)
                else (False, set_side (set_side s2 (\<lambda>f. f\<lparr>queen := False\<rparr>))
                               (\<lambda>f. f\<lparr>king := False\<rparr>)))"
        by (auto simp: can_castle_def is_in_check_simple split: Option.bind_splits if_splits)
      note k = try_king_side_eq [OF ks]
      have q1: "queen_side_free s1 row col = queen_side_free s row col"
        unfolding k(2) by simp
      note q = try_queen_side_eq [OF qs, unfolded q1]
      have "s' = set_side s (castle_flags k q)"
        using res unfolding q(2) k(2)
        by (cases k; cases q)
           (auto simp: castle_flags_def intro!: set_side_eqI castling_flags.equality)
      with ne k(1) q(1) show False by simp
    qed
  qed
  have frame: "\<exists>kf qf. s' = set_side s (\<lambda>f. f\<lparr>king := kf, queen := qf\<rparr>)"
  proof (cases "s' = set_side s (castle_flags ?K ?Q)")
    case True
    have "set_side s (castle_flags ?K ?Q) =
          set_side s (\<lambda>f. f\<lparr>king := king (castle_flags ?K ?Q (castling s (turn s))),
                            queen := queen (castle_flags ?K ?Q (castling s (turn s)))\<rparr>)"
      by (rule set_side_eqI) (auto simp: castle_flags_def intro!: castling_flags.equality)
    with True show ?thesis by blast
  next
    case False
    with st have "s' = s" by simp
    moreover have "s = set_side s (\<lambda>f. f\<lparr>king := king (castling s (turn s)),
                                         queen := queen (castling s (turn s))\<rparr>)"
      by (simp add: set_side_def)
    ultimately show ?thesis by metis
  qed
  have flags: "r \<Longrightarrow> s' = set_side s (castle_flags ?K ?Q)"
    using nochange by blast
  have kflag: "r \<and> ?K \<longrightarrow> king (castling s' (turn s))"
    using flags by (auto simp: castle_flags_def)
  have qflag: "r \<and> ?Q \<longrightarrow> queen (castling s' (turn s))"
    using flags by (auto simp: castle_flags_def)
  from r frame kflag qflag show ?thesis by blast
qed

theorem can_castle_effect_witness:
  "case can_castle short_castle_game 7 4 of
     None \<Rightarrow> False
   | Some (r, s') \<Rightarrow>
       r \<and> castling_possible short_castle_game 7 4 \<and>
       king_side_free short_castle_game 7 4 \<and> king (castling s' White) \<and>
       (\<exists>kf qf. s' = set_side short_castle_game (\<lambda>f. f\<lparr>king := kf, queen := qf\<rparr>))"
proof -
  have "map_option fst (can_castle short_castle_game 7 4) = Some True"
    by code_simp
  then obtain s' where c: "can_castle short_castle_game 7 4 = Some (True, s')"
    by auto
  have t: "turn short_castle_game = White" "king_side_free short_castle_game 7 4"
    by code_simp+
  from can_castle_effect [OF c] c t show ?thesis by simp
qed

text \<open>
  The claim as stated fails: the call leaves a state that differs from the one before,
  the king-side eligibility flag of White having gone from \<open>False\<close> to \<open>True\<close>.
\<close>

theorem can_castle_changes_state_counterexample:
  "\<not> king (castling short_castle_game White) \<and>
   (case can_castle short_castle_game 7 4 of
      None \<Rightarrow> False
    | Some (r, s') \<Rightarrow> r \<and> king (castling s' White) \<and> s' \<noteq> short_castle_game)"
proof -
  have a: "\<not> king (castling short_castle_game White)"
    by code_simp
  have "map_option (\<lambda>(r, s'). (r, king (castling s' White))) (can_castle short_castle_game 7 4)
          = Some (True, True)"
    by code_simp
  then obtain s' where c: "can_castle short_castle_game 7 4 = Some (True, s')"
    and k: "king (castling s' White)"
    by auto
  from a k have "s' \<noteq> short_castle_game" by auto
  with a c k show ?thesis by simp
qed

section \<open>Attack detection\<close>

text \<open>
  C1. On a board of eight rows of eight with every branch on the board, the non-simple
  \<open>is_square_attacked\<close> answers \<open>True\<close> exactly when the game is not over, edit mode is off
  and the square is attacked with the uncertainty resolved against the defender: by an
  enemy piece on a square outside the index, on the board as it is, or by an enemy branch
  of an unmeasured subsystem on the board where that branch is real and the other branch
  squares of the subsystem are empty. When the game is over or edit mode is on, move
  generation gives nothing and the answer is \<open>False\<close>.
\<close>

theorem is_square_attacked_pessimistic:
  assumes "wf_board (board s)" "branches_on_board (split_manager s)"
  shows "is_square_attacked s row col color False =
           (\<not> game_over s \<and> \<not> edit_mode s \<and> attacked_pessimistically s (row, col) color)"
proof (cases "game_over s \<or> edit_mode s")
  case True
  then show ?thesis
    by (auto simp: is_square_attacked_def get_valid_moves_simple_def list_ex_iff Let_def
          split: option.splits)
next
  case False
  then have on: "\<not> game_over s" "\<not> edit_mode s" by auto
  let ?enemy = "other_color color"
  let ?m = "split_manager s"
  have classical:
    "list_ex (\<lambda>r. list_ex (\<lambda>c.
         (case cell_at (board s) r c of
            None \<Rightarrow> False
          | Some p \<Rightarrow>
              fst p = ?enemy \<and> \<not> is_split_piece ?m (r, c) \<and>
              (row, col) \<in> set (get_valid_moves_simple (s\<lparr>turn := ?enemy\<rparr>) c r))) range8) range8
     = (\<exists>r\<in>set range8. \<exists>c\<in>set range8.
          map_option fst (cell_at (board s) r c) = Some ?enemy \<and>
          \<not> is_split_piece ?m (r, c) \<and>
          attacks_from s (board s) ?enemy (r, c) (row, col))"
    unfolding list_ex_iff classical_probe [OF on] ..
  have onb: "\<forall>br\<in>set (branches sub). on_board (fst (pos br)) (snd (pos br))"
    if "sub \<in> set (subsystems ?m)" for sub
    using assms(2) that by (auto simp: branches_on_board_def)
  have split:
    "list_ex (\<lambda>grp. list_ex (\<lambda>(p, piece).
           fst piece = ?enemy \<and>
           (row, col) \<in> set (get_valid_moves_simple
                              (s\<lparr>board := temp_board (board s) p piece grp, turn := ?enemy\<rparr>)
                              (snd p) (fst p))) grp)
         (get_split_positions ?m)
     = (\<exists>sub\<in>set (subsystems ?m). \<not> measured sub \<and>
          (\<exists>br\<in>set (branches sub). fst (piece_type br) = ?enemy \<and>
             attacks_from s (hypothetical_board (board s) br sub) ?enemy (pos br) (row, col)))"
    (is "?L = ?R")
  proof
    assume ?L
    then obtain sub br where
      sub: "sub \<in> set (subsystems ?m)" "\<not> measured sub" and br: "br \<in> set (branches sub)" and
      hit: "fst (piece_type br) = ?enemy"
        "(row, col) \<in> set (get_valid_moves_simple
            (s\<lparr>board := temp_board (board s) (pos br) (piece_type br) (group_of sub),
               turn := ?enemy\<rparr>) (snd (pos br)) (fst (pos br)))"
      by (auto simp: list_ex_iff get_split_positions_eq group_of_def)
    from hit(2)
    have "attacks_from s (hypothetical_board (board s) br sub) ?enemy (pos br) (row, col)"
      by (simp only: branch_probe [OF on assms(1) br onb [OF sub(1)]])
    with sub br hit(1) show ?R by blast
  next
    assume ?R
    then obtain sub br where
      sub: "sub \<in> set (subsystems ?m)" "\<not> measured sub" and br: "br \<in> set (branches sub)" and
      hit: "fst (piece_type br) = ?enemy"
        "attacks_from s (hypothetical_board (board s) br sub) ?enemy (pos br) (row, col)"
      by blast
    from hit(2) have probe: "(row, col) \<in> set (get_valid_moves_simple
            (s\<lparr>board := temp_board (board s) (pos br) (piece_type br) (group_of sub),
               turn := ?enemy\<rparr>) (snd (pos br)) (fst (pos br)))"
      by (simp only: branch_probe [OF on assms(1) br onb [OF sub(1)]])
    have ne: "group_of sub \<noteq> []" using br by (auto simp: group_of_def)
    have g: "group_of sub \<in> set (get_split_positions ?m)"
      using sub ne by (auto simp: get_split_positions_eq)
    have e: "(pos br, piece_type br) \<in> set (group_of sub)"
      using br by (auto simp: group_of_def)
    from g e hit(1) probe show ?L
      unfolding list_ex_iff
      by (intro bexI [of _ "group_of sub"] bexI [of _ "(pos br, piece_type br)"]) auto
  qed
  show ?thesis
    using on unfolding is_square_attacked_def Let_def attacked_pessimistically_def
    by (simp only: classical split if_False simp_thms)
qed

theorem is_square_attacked_pessimistic_witness:
  "wf_board (board split_rook_game) \<and> branches_on_board (split_manager split_rook_game) \<and>
   is_square_attacked split_rook_game 7 4 White False \<and>
   attacked_pessimistically split_rook_game (7, 4) White \<and>
   \<not> is_square_attacked split_rook_game 7 3 White False \<and>
   \<not> attacked_pessimistically split_rook_game (7, 3) White"
proof -
  have h: "wf_board (board split_rook_game)" "branches_on_board (split_manager split_rook_game)"
    by code_simp+
  have a: "is_square_attacked split_rook_game 7 4 White False"
          "\<not> is_square_attacked split_rook_game 7 3 White False"
          "\<not> game_over split_rook_game" "\<not> edit_mode split_rook_game"
    by code_simp+
  from is_square_attacked_pessimistic [OF h, of 7 4 White]
       is_square_attacked_pessimistic [OF h, of 7 3 White] h a
  show ?thesis by simp
qed

text \<open>
  The claim as stated, for every game state, fails in edit mode: in the start position
  the white knight on b1 attacks c3, and the probe says \<open>False\<close>.
\<close>

theorem is_square_attacked_edit_mode_counterexample:
  "wf_board (board editing_game) \<and> branches_on_board (split_manager editing_game) \<and>
   attacked_pessimistically editing_game (5, 2) Black \<and>
   \<not> is_square_attacked editing_game 5 2 Black False"
  by code_simp
section \<open>Moves onto split squares and moves in split mode\<close>




text \<open>
  C7. A split move from a square that is already split is not chained, and a promoting
  split move leaves split mode on. The knight on b1 is split to c3, Black moves the king,
  split mode is switched on again and the branch on c3 is split to d5, a move
  \<open>get_valid_moves\<close> offers. \<open>make_move\<close> first collapses the subsystem of b1 and c3
  (the knight is really on c3), applies it and drops both squares from the index; only
  then does it call \<open>create_split_qubit\<close>, which finds no parent: the new qubit is the
  root of a second subsystem, and the first one has no child. Called on an origin that
  is still in the index, \<open>create_split_qubit\<close> raises. And the split move of the pawn
  from a7 to a8 returns with the promotion pending and split mode still on.
\<close>

theorem split_move_never_chains:
  "(case make_move knight_split_game 7 1 5 2 of
      None \<Rightarrow> False
    | Some s1 \<Rightarrow>
        turn s1 = Black \<and>
        global_position_map (split_manager s1) = [((7, 1), 0, 0, BrA), ((5, 2), 0, 0, BrB)] \<and>
        (case make_move s1 0 4 0 3 of
           None \<Rightarrow> False
         | Some s2 \<Rightarrow>
             turn s2 = White \<and> \<not> split_mode s2 \<and>
             is_split_piece (split_manager s2) (5, 2) \<and>
             map_option (\<lambda>(ms, _). (3, 3) \<in> set ms)
               (get_valid_moves (s2\<lparr>split_mode := True\<rparr>) 2 5) = Some True \<and>
             (case make_move (s2\<lparr>split_mode := True\<rparr>) 5 2 3 3 of
                None \<Rightarrow> False
              | Some s3 \<Rightarrow>
                  history s3 = [(7, 1, 5, 2, white_knight, None), (0, 4, 0, 3, (Black, King), None),
                                (5, 2, 3, 3, white_knight, None)] \<and>
                  cell_at (board s3) 7 1 = None \<and> cell_at (board s3) 5 2 = Some white_knight \<and>
                  cell_at (board s3) 3 3 = Some white_knight \<and>
                  global_position_map (split_manager s3)
                    = [((5, 2), 1, 0, BrA), ((3, 3), 1, 0, BrB)] \<and>
                  map (\<lambda>sub. (measured sub, map parent (split_qubits sub),
                                map children (split_qubits sub)))
                    (subsystems (split_manager s3))
                    = [(True, [None], [[]]), (False, [None], [[]])]))) \<and>
   create_split_qubit (split_at new_manager (7, 1) (5, 2) white_knight) (5, 2) (3, 3) white_knight
     = None \<and>
   (case make_move pawn_split_game 1 0 0 0 of
      None \<Rightarrow> False
    | Some s' \<Rightarrow>
        promotion_pending s' \<and> promotion_pos s' = Some (0, 0) \<and> split_mode s' \<and>
        history s' = [] \<and> is_split_piece (split_manager s') (0, 0))"
  by code_simp


end
